theory Spec2Isabelle
  imports Complex_Main
begin

section \<open>JavaScript values\<close>

text \<open>
  The orchestration engine of \<^verbatim>\<open>src/index.ts\<close> inspects results and errors of type
  \<^verbatim>\<open>any\<close>. A JavaScript number is modelled as \<open>NaN\<close> or an exact rational; the rounding
  and the infinities of IEEE doubles are not modelled. Objects are finite lists of own
  properties; a \<^verbatim>\<open>Headers\<close> instance of the Fetch API is the list of headers it holds,
  with the names in lower case as the Fetch standard stores them.
\<close>

datatype number = NaN | Num rat

datatype jsval =
    JUndefined
  | JNull
  | JBool bool
  | JNum number
  | JStr string
  | JObj "(string \<times> jsval) list"
  | JHeaders "(string \<times> string) list"

text \<open>\<^verbatim>\<open>Boolean(v)\<close>, the test of \<^verbatim>\<open>if (v)\<close>.\<close>

fun truthy :: "jsval \<Rightarrow> bool" where
  "truthy JUndefined = False"
| "truthy JNull = False"
| "truthy (JBool b) = b"
| "truthy (JNum NaN) = False"
| "truthy (JNum (Num r)) = (r \<noteq> 0)"
| "truthy (JStr s) = (s \<noteq> [])"
| "truthy (JObj ps) = True"
| "truthy (JHeaders hs) = True"

text \<open>
  \<^verbatim>\<open>v?.k\<close>: \<^verbatim>\<open>undefined\<close> when \<open>v\<close> is \<^verbatim>\<open>null\<close> or \<^verbatim>\<open>undefined\<close>, the property otherwise.
  None of the property names the engine reads (\<^verbatim>\<open>status\<close>, \<^verbatim>\<open>response\<close>, \<^verbatim>\<open>statuscode\<close>,
  \<^verbatim>\<open>code\<close>, \<^verbatim>\<open>headers\<close>, \<^verbatim>\<open>Retry-After\<close>) exists on a primitive or on a \<^verbatim>\<open>Headers\<close>
  instance, so only objects answer.
\<close>

fun getProp :: "jsval \<Rightarrow> string \<Rightarrow> jsval" where
  "getProp (JObj ps) k = (case map_of ps k of Some v \<Rightarrow> v | None \<Rightarrow> JUndefined)"
| "getProp v k = JUndefined"

text \<open>\<^verbatim>\<open>v == null\<close>: reading a property of such a value without \<^verbatim>\<open>?.\<close> throws a TypeError.\<close>

fun nullish :: "jsval \<Rightarrow> bool" where
  "nullish JUndefined = True"
| "nullish JNull = True"
| "nullish v = False"

subsection \<open>\<^verbatim>\<open>Number.parseInt\<close> with no radix\<close>

text \<open>
  ECMAScript \<^verbatim>\<open>parseInt(string)\<close>: leading white space is skipped, a sign is read, a
  \<^verbatim>\<open>0x\<close>/\<^verbatim>\<open>0X\<close> prefix selects radix 16 (radix 10 otherwise), and the longest prefix of
  digits of that radix is the value; no digit at all gives \<^verbatim>\<open>NaN\<close>. Characters are code
  units below 256.
\<close>

definition isWhiteSpace :: "char \<Rightarrow> bool" where
  "isWhiteSpace c = (of_char c \<in> {9, 10, 11, 12, 13, 32, 160 :: nat})"

definition digitValue :: "char \<Rightarrow> nat option" where
  "digitValue c =
     (let n = (of_char c :: nat) in
      if 48 \<le> n \<and> n \<le> 57 then Some (n - 48)
      else if 97 \<le> n \<and> n \<le> 122 then Some (n - 87)
      else if 65 \<le> n \<and> n \<le> 90 then Some (n - 55)
      else None)"

definition isRadixDigit :: "nat \<Rightarrow> char \<Rightarrow> bool" where
  "isRadixDigit R c = (case digitValue c of Some d \<Rightarrow> d < R | None \<Rightarrow> False)"

definition digitsValue :: "nat \<Rightarrow> string \<Rightarrow> nat" where
  "digitsValue R ds = foldl (\<lambda>acc c. acc * R + the (digitValue c)) 0 ds"

definition parseInt :: "string \<Rightarrow> number" where
  "parseInt inputString =
     (let S = dropWhile isWhiteSpace inputString;
          sign = (if S \<noteq> [] \<and> hd S = CHR ''-'' then - 1 else 1 :: int);
          S1 = (if S \<noteq> [] \<and> (hd S = CHR ''+'' \<or> hd S = CHR ''-'') then tl S else S);
          hex = (2 \<le> length S1 \<and> (take 2 S1 = ''0x'' \<or> take 2 S1 = ''0X''));
          R = (if hex then 16 else 10);
          S2 = (if hex then drop 2 S1 else S1);
          Z = takeWhile (isRadixDigit R) S2
      in if Z = [] then NaN else Num (of_int (sign * int (digitsValue R Z))))"

text \<open>
  \<^verbatim>\<open>Number.parseInt(v)\<close> on an arbitrary value first renders it as a string. For a number
  the rendering is its decimal form, whose leading integer is the number truncated
  towards zero (exact for magnitudes from 1e-6 up to 1e21); the renderings of the other
  values (\<^verbatim>\<open>"true"\<close>, \<^verbatim>\<open>"null"\<close>, \<^verbatim>\<open>"[object Object]"\<close>, ...) start with no digit.
\<close>

definition Number_parseInt :: "jsval \<Rightarrow> number" where
  "Number_parseInt v =
     (case v of
        JStr s \<Rightarrow> parseInt s
      | JNum (Num r) \<Rightarrow> Num (of_int (if 0 \<le> r then \<lfloor>r\<rfloor> else \<lceil>r\<rceil>))
      | _ \<Rightarrow> NaN)"

text \<open>
  \<^verbatim>\<open>Date.parse\<close> is the platform's: \<open>dateParse\<close> is a parameter, the time stamp in
  milliseconds of a string or \<^verbatim>\<open>NaN\<close>. The renderings of the values that are not strings
  and reach it (those on which \<open>Number_parseInt\<close> is \<^verbatim>\<open>NaN\<close>) are no dates.
\<close>

definition Date_parse :: "(string \<Rightarrow> number) \<Rightarrow> jsval \<Rightarrow> number" where
  "Date_parse dateParse v = (case v of JStr s \<Rightarrow> dateParse s | _ \<Rightarrow> NaN)"

section \<open>Configuration\<close>

text \<open>
  \<^verbatim>\<open>RetryOptions\<close> of \<^verbatim>\<open>types.ts\<close>. The engine reads every field with a non-null
  assertion, so the record carries all four; \<open>maxRetries\<close> is a count.
\<close>

record RetryOptions =
  maxRetries :: int
  minDelayInMs :: rat
  maxDelayInMs :: rat
  backoffFactor :: rat

definition defaultRetryOptions :: RetryOptions where
  "defaultRetryOptions =
     \<lparr>maxRetries = 3, minDelayInMs = 1000, maxDelayInMs = 10000, backoffFactor = 2\<rparr>"

text \<open>
  The rate limiter of the package \<^verbatim>\<open>@grapelaw/token-bucket\<close> is not part of this
  repository: its two operations are parameters, acting on a limiter state \<open>'tb\<close>.
  \<open>consumeAsync\<close> reports whether a token was granted.
\<close>

record 'tb TokenBucket =
  consumeAsync :: "'tb \<Rightarrow> bool \<times> 'tb"
  forceWaitUntilMilisecondsPassed :: "rat \<Rightarrow> 'tb \<Rightarrow> 'tb"

text \<open>The verdict of a \<^verbatim>\<open>ResultIdentifier\<close> and the identifier itself.\<close>

record Verdict =
  isRateLimited :: bool
  isClientSideError' :: bool

record ResultIdentifier =
  identifyResult :: "jsval \<Rightarrow> Verdict"
  identifyError :: "jsval \<Rightarrow> Verdict"

section \<open>Error classifier\<close>

text \<open>
  \<^verbatim>\<open>extractStatusCodeProperties\<close>: the callback of \<^verbatim>\<open>statusCodes.map\<close>, then
  \<^verbatim>\<open>.filter(Boolean)\<close>, then the cast \<^verbatim>\<open>as number[]\<close>.
\<close>

definition coerceStatus :: "jsval \<Rightarrow> jsval" where
  "coerceStatus status =
     (case status of
        JNum (Num r) \<Rightarrow> JNum (Num r)
      | JStr s \<Rightarrow> (case parseInt s of NaN \<Rightarrow> JUndefined | Num k \<Rightarrow> JNum (Num k))
      | _ \<Rightarrow> JUndefined)"

fun asNumbers :: "jsval list \<Rightarrow> rat list" where
  "asNumbers [] = []"
| "asNumbers (JNum (Num r) # vs) = r # asNumbers vs"
| "asNumbers (v # vs) = asNumbers vs"

definition statusCodes :: "jsval \<Rightarrow> jsval list" where
  "statusCodes err =
     [getProp err ''status'',
      getProp (getProp err ''response'') ''status'',
      getProp err ''statuscode'',
      getProp (getProp err ''response'') ''statuscode'',
      getProp err ''code'']"

definition extractStatusCodeProperties :: "jsval \<Rightarrow> rat list" where
  "extractStatusCodeProperties err =
     asNumbers (filter truthy (map coerceStatus (statusCodes err)))"

text \<open>The two \<^verbatim>\<open>for ... of\<close> loops, each returning at the first hit.\<close>

fun isClientSideError_loop :: "rat list \<Rightarrow> bool" where
  "isClientSideError_loop [] = False"
| "isClientSideError_loop (property # rest) =
     (if 400 \<le> property \<and> property < 500 then True else isClientSideError_loop rest)"

definition isClientSideError :: "jsval \<Rightarrow> bool" where
  "isClientSideError errOrResponse =
     (let possibleProperties = extractStatusCodeProperties errOrResponse
      in isClientSideError_loop possibleProperties)"

fun isRateLimitedError_loop :: "rat list \<Rightarrow> bool" where
  "isRateLimitedError_loop [] = False"
| "isRateLimitedError_loop (property # rest) =
     (if property = 429 then True else isRateLimitedError_loop rest)"

definition isRateLimitedError :: "jsval \<Rightarrow> bool" where
  "isRateLimitedError errOrResponse =
     (let possibleProperties = extractStatusCodeProperties errOrResponse
      in isRateLimitedError_loop possibleProperties)"

definition defaultResponseIdentifier :: ResultIdentifier where
  "defaultResponseIdentifier =
     \<lparr>identifyResult = (\<lambda>response.
        \<lparr>isRateLimited = isRateLimitedError response,
         isClientSideError' = isClientSideError response\<rparr>),
      identifyError = (\<lambda>error.
        \<lparr>isRateLimited = isRateLimitedError error,
         isClientSideError' = isClientSideError error\<rparr>)\<rparr>"

section \<open>Delay calculator\<close>

text \<open>
  \<^verbatim>\<open>calculateDefaultDelay\<close>, computed over exact rationals. The code computes in doubles,
  and the two part where the power overflows: a power of \<open>2 ^ 1024\<close> or more is
  \<^verbatim>\<open>Infinity\<close> there, so that with \<open>minDelayInMs = 0\<close> the product is \<^verbatim>\<open>0 * Infinity\<close>, that
  is \<^verbatim>\<open>NaN\<close>, and \<^verbatim>\<open>Math.min(NaN, maxDelayInMs)\<close> is \<^verbatim>\<open>NaN\<close>, where this definition
  gives 0 (for example \<open>minDelayInMs = 0\<close>, \<open>backoffFactor = 10\<close> and a count of 400).
  \<open>finitePower\<close> is the range in which the power is finite in the code too. With
  \<open>minDelayInMs\<close> of 1 or more an infinite power makes the product exceed every double,
  and the code returns \<open>maxDelayInMs\<close> as this definition does. Bounds on the delay are
  stated within \<open>delayComputable\<close> only.
\<close>

definition calculateDefaultDelay :: "RetryOptions \<Rightarrow> int \<Rightarrow> rat" where
  "calculateDefaultDelay opts completedTryCount =
     min (minDelayInMs opts * power_int (backoffFactor opts) (completedTryCount - 1))
         (maxDelayInMs opts)"

definition finitePower :: "RetryOptions \<Rightarrow> int \<Rightarrow> bool" where
  "finitePower opts completedTryCount =
     (power_int (backoffFactor opts) (completedTryCount - 1) < 2 ^ 1023)"

definition delayComputable :: "RetryOptions \<Rightarrow> int \<Rightarrow> bool" where
  "delayComputable opts completedTryCount =
     (1 \<le> minDelayInMs opts \<or> finitePower opts completedTryCount)"

text \<open>
  The hint: \<^verbatim>\<open>headers.get("Retry-After")\<close> when \<^verbatim>\<open>headers.get\<close> is a function (a
  \<^verbatim>\<open>Headers\<close> instance, whose \<^verbatim>\<open>get\<close> ignores the case of the name and answers \<^verbatim>\<open>null\<close>
  for a header it does not hold), \<^verbatim>\<open>headers["Retry-After"]\<close> otherwise.
\<close>

definition retryAfterHeader :: "jsval \<Rightarrow> jsval" where
  "retryAfterHeader headers =
     (case headers of
        JHeaders hs \<Rightarrow> (case map_of hs ''retry-after'' of Some s \<Rightarrow> JStr s | None \<Rightarrow> JNull)
      | _ \<Rightarrow> getProp headers ''Retry-After'')"

text \<open>
  \<^verbatim>\<open>calculateRetryDelay\<close> returns the delay and the limiter state, which
  \<^verbatim>\<open>forceWaitUntilMilisecondsPassed\<close> changes on the two hint paths. \<open>now\<close> is the reading
  of \<^verbatim>\<open>new Date().getTime()\<close>.
\<close>

definition calculateRetryDelay ::
  "'tb TokenBucket \<Rightarrow> RetryOptions \<Rightarrow> (string \<Rightarrow> number) \<Rightarrow> rat \<Rightarrow> int \<Rightarrow> jsval \<Rightarrow> 'tb
     \<Rightarrow> rat \<times> 'tb" where
  "calculateRetryDelay tb opts dateParse now completedTryCount headers b =
     (if truthy headers then
        if truthy (retryAfterHeader headers) then
          (case Number_parseInt (retryAfterHeader headers) of
             Num k \<Rightarrow>
               (let delay = k * 1000
                in (delay, forceWaitUntilMilisecondsPassed tb delay b))
           | NaN \<Rightarrow>
               (case Date_parse dateParse (retryAfterHeader headers) of
                  Num retryAfter \<Rightarrow>
                    if 0 < retryAfter then
                      (let delay = max (retryAfter - now) 0
                       in (delay, forceWaitUntilMilisecondsPassed tb delay b))
                    else (calculateDefaultDelay opts completedTryCount, b)
                | NaN \<Rightarrow> (calculateDefaultDelay opts completedTryCount, b)))
        else (calculateDefaultDelay opts completedTryCount, b)
      else (calculateDefaultDelay opts completedTryCount, b))"

text \<open>
  Which branch of \<^verbatim>\<open>calculateRetryDelay\<close> a headers value takes: the hint read as a
  count of seconds, or the hint read as a date.
\<close>

definition integerHint :: "jsval \<Rightarrow> bool" where
  "integerHint headers =
     (truthy headers \<and> truthy (retryAfterHeader headers)
      \<and> Number_parseInt (retryAfterHeader headers) \<noteq> NaN)"

definition dateHint :: "(string \<Rightarrow> number) \<Rightarrow> jsval \<Rightarrow> bool" where
  "dateHint dateParse headers =
     (truthy headers \<and> truthy (retryAfterHeader headers)
      \<and> Number_parseInt (retryAfterHeader headers) = NaN
      \<and> (case Date_parse dateParse (retryAfterHeader headers) of
             Num t \<Rightarrow> 0 < t | NaN \<Rightarrow> False))"

text \<open>
  A limiter for the examples: it grants every token and keeps the list of the waits
  forced on it.
\<close>

definition recordingBucket :: "rat list TokenBucket" where
  "recordingBucket =
     \<lparr>consumeAsync = (\<lambda>b. (True, b)),
      forceWaitUntilMilisecondsPassed = (\<lambda>delay b. b @ [delay])\<rparr>"


definition closedBucket :: "unit TokenBucket" where
  "closedBucket =
     \<lparr>consumeAsync = (\<lambda>b. (False, b)), forceWaitUntilMilisecondsPassed = (\<lambda>delay b. b)\<rparr>"

section \<open>Retry engine\<close>

text \<open>
  What a promise settles with. The wrapped operation \<^verbatim>\<open>fn\<close> is a sequence of such
  outcomes: its \<open>k\<close>-th invocation, counted from 0 over the whole call, settles with
  \<open>fn E k\<close>. \<open>clock E k\<close> is the reading of \<^verbatim>\<open>new Date().getTime()\<close> after \<open>k\<close> invocations.
\<close>

datatype settled = Fulfilled jsval | Rejected jsval

record environment =
  fn :: "nat \<Rightarrow> settled"
  dateParse :: "string \<Rightarrow> number"
  clock :: "nat \<Rightarrow> rat"

text \<open>
  The read-only fields of an \<^verbatim>\<open>AsyncCaller\<close>, and what one call changes and leaves behind:
  the limiter state, the \<^verbatim>\<open>tryCount\<close> and the outcome of every invocation of \<^verbatim>\<open>fn\<close> in
  order, and the delays handed to \<^verbatim>\<open>setTimeout\<close> in order.
\<close>

record 'tb AsyncCaller =
  tokenBucket :: "'tb TokenBucket"
  retryOptions :: RetryOptions
  concurrency :: int
  resultIdentifier :: ResultIdentifier

record 'tb world =
  bucket :: 'tb
  attempts :: "(int \<times> settled) list"
  delays :: "rat list"

text \<open>
  \<^verbatim>\<open>while (!await this._tokenBucket.consumeAsync());\<close> polls until a token is granted;
  \<open>None\<close> is the loop that never ends.
\<close>

partial_function (option) awaitToken :: "('tb \<Rightarrow> bool \<times> 'tb) \<Rightarrow> 'tb \<Rightarrow> 'tb option" where
  "awaitToken consume b =
     (case consume b of (granted, b') \<Rightarrow> if granted then Some b' else awaitToken consume b')"

text \<open>
  \<^verbatim>\<open>fetchResult.headers\<close> and \<^verbatim>\<open>err.headers\<close> are read without \<^verbatim>\<open>?.\<close>: on
  \<^verbatim>\<open>null\<close> or \<^verbatim>\<open>undefined\<close> the handler throws this error.
  \<open>errorHeaders\<close> is \<^verbatim>\<open>err.headers ?? err.response?.headers\<close>.
\<close>

definition TypeError_headers :: jsval where
  "TypeError_headers =
     JObj [(''name'', JStr ''TypeError''),
           (''message'', JStr ''Cannot read properties of undefined (reading headers)'')]"

definition errorHeaders :: "jsval \<Rightarrow> jsval" where
  "errorHeaders err =
     (if nullish (getProp err ''headers'') then getProp (getProp err ''response'') ''headers''
      else getProp err ''headers'')"

text \<open>
  \<^verbatim>\<open>executeWithRetry\<close>. \<open>thenResult\<close> is what the promise \<^verbatim>\<open>fn().then(...)\<close> settles with:
  a rejection of \<^verbatim>\<open>fn()\<close> passes through, and a fulfilment runs the first handler, whose
  recursive call settles it. The \<^verbatim>\<open>.catch(...)\<close> chained behind it then handles every
  rejection of \<open>thenResult\<close>, those of the recursive call included. The result is what the
  returned promise settles with, or \<open>None\<close> when a token is never granted.
\<close>

function executeWithRetry ::
  "'tb AsyncCaller \<Rightarrow> environment \<Rightarrow> int \<Rightarrow> jsval \<Rightarrow> jsval \<Rightarrow> 'tb world
     \<Rightarrow> (settled \<times> 'tb world) option" where
  "executeWithRetry C E tryCount lastResponse lastError w =
     (case awaitToken (consumeAsync (tokenBucket C)) (bucket w) of
        None \<Rightarrow> None
      | Some b \<Rightarrow>
          if tryCount > maxRetries (retryOptions C) + 1 then
            (if truthy lastError then Some (Rejected lastError, w\<lparr>bucket := b\<rparr>)
             else Some (Fulfilled lastResponse, w\<lparr>bucket := b\<rparr>))
          else
            (let w1 = w\<lparr>bucket := b,
                        attempts := attempts w @ [(tryCount, fn E (length (attempts w)))]\<rparr>;
                 thenResult =
                   (case fn E (length (attempts w)) of
                      Rejected err \<Rightarrow> Some (Rejected err, w1)
                    | Fulfilled result \<Rightarrow>
                        if tryCount = maxRetries (retryOptions C) + 1 then
                          Some (Fulfilled result, w1)
                        else if isRateLimited (identifyResult (resultIdentifier C) result) then
                          (if nullish result then Some (Rejected TypeError_headers, w1)
                           else
                             (case calculateRetryDelay (tokenBucket C) (retryOptions C)
                                     (dateParse E) (clock E (length (attempts w1))) tryCount
                                     (getProp result ''headers'') (bucket w1) of
                                (delay, b') \<Rightarrow>
                                  executeWithRetry C E (tryCount + 1) result lastError
                                    (w1\<lparr>bucket := b', delays := delays w1 @ [delay]\<rparr>)))
                        else Some (Fulfilled result, w1))
             in case thenResult of
                  None \<Rightarrow> None
                | Some (Fulfilled v, w2) \<Rightarrow> Some (Fulfilled v, w2)
                | Some (Rejected err, w2) \<Rightarrow>
                    if tryCount = maxRetries (retryOptions C) + 1 then Some (Rejected err, w2)
                    else if isClientSideError' (identifyError (resultIdentifier C) err)
                            \<and> \<not> isRateLimited (identifyError (resultIdentifier C) err) then
                      Some (Rejected err, w2)
                    else if nullish err then Some (Rejected TypeError_headers, w2)
                    else
                      (case calculateRetryDelay (tokenBucket C) (retryOptions C)
                              (dateParse E) (clock E (length (attempts w2))) tryCount
                              (errorHeaders err) (bucket w2) of
                         (delay, b') \<Rightarrow>
                           executeWithRetry C E (tryCount + 1) lastResponse err
                             (w2\<lparr>bucket := b', delays := delays w2 @ [delay]\<rparr>))))"
  by pat_completeness auto
termination
  by (relation "measure (\<lambda>(C, E, tryCount, lastResponse, lastError, w).
        nat (maxRetries (retryOptions C) + 1 - tryCount))") auto

declare executeWithRetry.simps [simp del]

text \<open>
  What the promise of \<^verbatim>\<open>call(fn)\<close> settles with once the call is admitted:
  \<^verbatim>\<open>executeAndHandleErrors\<close> returns the promise of \<^verbatim>\<open>executeWithRetry(fn, 1, undefined)\<close>.
\<close>

definition executeAndHandleErrors ::
  "'tb AsyncCaller \<Rightarrow> environment \<Rightarrow> 'tb world \<Rightarrow> (settled \<times> 'tb world) option" where
  "executeAndHandleErrors C E w = executeWithRetry C E 1 JUndefined JUndefined w"

text \<open>
  The verdict under which the second handler re-raises at once, and an attempt of the log
  that was rejected with \<open>err\<close> before the last permitted one.
\<close>

definition terminalVerdict :: "'tb AsyncCaller \<Rightarrow> jsval \<Rightarrow> bool" where
  "terminalVerdict C err =
     (isClientSideError' (identifyError (resultIdentifier C) err)
      \<and> \<not> isRateLimited (identifyError (resultIdentifier C) err))"

definition rejectedEarly :: "'tb AsyncCaller \<Rightarrow> int \<times> settled \<Rightarrow> jsval \<Rightarrow> bool" where
  "rejectedEarly C a err =
     (fst a < maxRetries (retryOptions C) + 1 \<and> snd a = Rejected err)"

text \<open>The caller of the examples: default options over the limiter \<open>recordingBucket\<close>.\<close>

definition defaultCaller :: "rat list AsyncCaller" where
  "defaultCaller =
     \<lparr>tokenBucket = recordingBucket, retryOptions = defaultRetryOptions, concurrency = 5,
      resultIdentifier = defaultResponseIdentifier\<rparr>"

definition freshWorld :: "rat list world" where
  "freshWorld = \<lparr>bucket = [], attempts = [], delays = []\<rparr>"


text \<open>
  The two handlers of \<^verbatim>\<open>fn().then(...).catch(...)\<close> as functions of their own, for the
  proofs: \<open>executeWithRetry_handlers\<close> below shows that \<open>executeWithRetry\<close> is built from
  them.
\<close>

definition thenHandler ::
  "'tb AsyncCaller \<Rightarrow> environment \<Rightarrow> int \<Rightarrow> jsval \<Rightarrow> jsval \<Rightarrow> 'tb world
     \<Rightarrow> (settled \<times> 'tb world) option" where
  "thenHandler C E tryCount lastError result w1 =
     (if tryCount = maxRetries (retryOptions C) + 1 then Some (Fulfilled result, w1)
      else if isRateLimited (identifyResult (resultIdentifier C) result) then
        (if nullish result then Some (Rejected TypeError_headers, w1)
         else
           (case calculateRetryDelay (tokenBucket C) (retryOptions C)
                   (dateParse E) (clock E (length (attempts w1))) tryCount
                   (getProp result ''headers'') (bucket w1) of
              (delay, b') \<Rightarrow>
                executeWithRetry C E (tryCount + 1) result lastError
                  (w1\<lparr>bucket := b', delays := delays w1 @ [delay]\<rparr>)))
      else Some (Fulfilled result, w1))"

definition catchHandler ::
  "'tb AsyncCaller \<Rightarrow> environment \<Rightarrow> int \<Rightarrow> jsval \<Rightarrow> jsval \<Rightarrow> 'tb world
     \<Rightarrow> (settled \<times> 'tb world) option" where
  "catchHandler C E tryCount lastResponse err w2 =
     (if tryCount = maxRetries (retryOptions C) + 1 then Some (Rejected err, w2)
      else if isClientSideError' (identifyError (resultIdentifier C) err)
              \<and> \<not> isRateLimited (identifyError (resultIdentifier C) err) then
        Some (Rejected err, w2)
      else if nullish err then Some (Rejected TypeError_headers, w2)
      else
        (case calculateRetryDelay (tokenBucket C) (retryOptions C)
                (dateParse E) (clock E (length (attempts w2))) tryCount
                (errorHeaders err) (bucket w2) of
           (delay, b') \<Rightarrow>
             executeWithRetry C E (tryCount + 1) lastResponse err
               (w2\<lparr>bucket := b', delays := delays w2 @ [delay]\<rparr>)))"

text \<open>
  The log of a completed \<^verbatim>\<open>executeWithRetry\<close> that made an attempt: no attempt but the
  last was rejected before the last permitted one with a terminal verdict, and if the
  last attempt was rejected before the last permitted one, then the call raised that
  error when its verdict is terminal, and otherwise the error was \<^verbatim>\<open>null\<close> or
  \<^verbatim>\<open>undefined\<close> and the call raised the TypeError of reading its headers.
\<close>

definition completedInv :: "'tb AsyncCaller \<Rightarrow> (int \<times> settled) list \<Rightarrow> settled \<Rightarrow> bool" where
  "completedInv C new out =
     (new \<noteq> []
      \<and> (\<forall>a \<in> set (butlast new). \<forall>err. rejectedEarly C a err \<longrightarrow> \<not> terminalVerdict C err)
      \<and> (\<forall>err. rejectedEarly C (last new) err \<longrightarrow>
            (if terminalVerdict C err then out = Rejected err
             else nullish err \<and> out = Rejected TypeError_headers)))"

definition engineInv ::
  "'tb AsyncCaller \<Rightarrow> int \<Rightarrow> 'tb world \<Rightarrow> settled \<Rightarrow> 'tb world \<Rightarrow> bool" where
  "engineInv C n w out w' =
     (\<exists>new. attempts w' = attempts w @ new
        \<and> (if maxRetries (retryOptions C) + 1 < n then new = [] else completedInv C new out))"


text \<open>
  An operation for the examples: its first invocations settle as listed, every later one
  with \<open>rest\<close>; no string is a date and the clock stands at 0.
\<close>

definition scripted :: "settled list \<Rightarrow> settled \<Rightarrow> environment" where
  "scripted outcomes rest =
     \<lparr>fn = (\<lambda>k. if k < length outcomes then outcomes ! k else rest),
      dateParse = (\<lambda>s. NaN), clock = (\<lambda>k. 0)\<rparr>"

section \<open>Admission queue\<close>

text \<open>
  JavaScript runs one block of code at a time, to its next \<^verbatim>\<open>await\<close>. The state is the
  two mutable fields of the caller (\<open>runningTasks\<close>, and \<open>queue\<close> holding each \<^verbatim>\<open>resolve\<close>
  callback under the number of the call it unblocks), the continuations that
  \<^verbatim>\<open>resolve()\<close> made runnable (\<open>microtasks\<close>, run oldest first), and the calls by stage:
  \<open>submitted\<close> and \<open>started\<close> in the order it happened, \<open>polling\<close> for a call whose
  \<^verbatim>\<open>executeWithRetry\<close> is between invocations, \<open>executing\<close> for a call whose \<^verbatim>\<open>fn()\<close> is
  pending, \<open>finished\<close> for a call that settled.
\<close>

record caller_state =
  runningTasks :: int
  queue :: "nat list"
  microtasks :: "nat list"
  submitted :: "nat list"
  started :: "nat list"
  polling :: "nat list"
  executing :: "nat list"
  finished :: "nat list"

definition initial :: caller_state where
  "initial =
     \<lparr>runningTasks = 0, queue = [], microtasks = [], submitted = [], started = [],
      polling = [], executing = [], finished = []\<rparr>"

function processTaskQueue :: "int \<Rightarrow> caller_state \<Rightarrow> caller_state" where
  "processTaskQueue conc s =
     (if runningTasks s < conc \<and> 0 < length (queue s) then
        processTaskQueue conc
          (s\<lparr>runningTasks := runningTasks s + 1,
             queue := tl (queue s),
             microtasks := microtasks s @ [hd (queue s)]\<rparr>)
      else s)"
  by pat_completeness auto
termination
  by (relation "measure (\<lambda>(conc, s). length (queue s))") auto

declare processTaskQueue.simps [simp del]

text \<open>
  The blocks of code, one event each.
  \<^item> \<open>Call\<close>: \<^verbatim>\<open>call(fn)\<close> up to its \<^verbatim>\<open>await\<close>: the callback is pushed and
    \<^verbatim>\<open>processTaskQueue\<close> runs.
  \<^item> \<open>Continue\<close>: the oldest runnable continuation, \<^verbatim>\<open>return this.executeAndHandleErrors(fn)\<close>.
    Inside the \<^verbatim>\<open>try\<close>, \<^verbatim>\<open>executeWithRetry\<close> runs to its first \<^verbatim>\<open>await\<close> and hands back
    a pending promise; \<^verbatim>\<open>return\<close> of a promise with no \<^verbatim>\<open>await\<close> does not wait for it, so
    the \<^verbatim>\<open>finally\<close> block runs in this same block: \<^verbatim>\<open>runningTasks--\<close>, then
    \<^verbatim>\<open>processTaskQueue\<close>.
  \<^item> \<open>Invoke c\<close>: a token was granted to call \<open>c\<close> and \<^verbatim>\<open>fn()\<close> is invoked.
  \<^item> \<open>Settle c again\<close>: the promise of \<^verbatim>\<open>fn()\<close> settled; the handlers either schedule
    another attempt (\<open>again\<close>) or settle the call. Neither touches \<open>runningTasks\<close>.
  \<^item> \<open>Exhaust c\<close>: the branch \<^verbatim>\<open>tryCount > maxRetries + 1\<close> settles the call with no
    invocation.
  An event that is not enabled gives \<open>None\<close>.
\<close>

datatype event = Call | Continue | Invoke nat | Settle nat bool | Exhaust nat

fun step :: "int \<Rightarrow> event \<Rightarrow> caller_state \<Rightarrow> caller_state option" where
  "step conc Call s =
     (let c = length (submitted s)
      in Some (processTaskQueue conc
           (s\<lparr>queue := queue s @ [c], submitted := submitted s @ [c]\<rparr>)))"
| "step conc Continue s =
     (case microtasks s of
        [] \<Rightarrow> None
      | c # rest \<Rightarrow>
          Some (processTaskQueue conc
            (s\<lparr>microtasks := rest, started := started s @ [c], polling := polling s @ [c],
               runningTasks := runningTasks s - 1\<rparr>)))"
| "step conc (Invoke c) s =
     (if c \<in> set (polling s) then
        Some (s\<lparr>polling := remove1 c (polling s), executing := executing s @ [c]\<rparr>)
      else None)"
| "step conc (Settle c again) s =
     (if c \<in> set (executing s) then
        Some (if again then
                s\<lparr>executing := remove1 c (executing s), polling := polling s @ [c]\<rparr>
              else
                s\<lparr>executing := remove1 c (executing s), finished := finished s @ [c]\<rparr>)
      else None)"
| "step conc (Exhaust c) s =
     (if c \<in> set (polling s) then
        Some (s\<lparr>polling := remove1 c (polling s), finished := finished s @ [c]\<rparr>)
      else None)"

fun run :: "int \<Rightarrow> event list \<Rightarrow> caller_state \<Rightarrow> caller_state option" where
  "run conc [] s = Some s"
| "run conc (e # es) s = (case step conc e s of None \<Rightarrow> None | Some s' \<Rightarrow> run conc es s')"

text \<open>
  What holds in every state the events reach: the calls started, then those made
  runnable, then those still queued are the calls in the order of submission;
  \<open>runningTasks\<close> counts the calls made runnable and not yet started; it stays within the
  limit; and a call waits in the queue only while the count has reached the limit.
\<close>

definition admissionInv :: "int \<Rightarrow> caller_state \<Rightarrow> bool" where
  "admissionInv conc s =
     (started s @ microtasks s @ queue s = submitted s
      \<and> submitted s = [0..<length (submitted s)]
      \<and> runningTasks s = int (length (microtasks s))
      \<and> runningTasks s \<le> max conc 0
      \<and> (queue s = [] \<or> conc \<le> runningTasks s))"

section \<open>Properties of the delay calculator\<close>

lemma power_int_pred: "1 \<le> n \<Longrightarrow> power_int b (n - 1) = b ^ nat (n - 1)"
  by (simp add: power_int_def)

lemma default_delay_capped:
  assumes "5 \<le> n"
  shows "calculateDefaultDelay defaultRetryOptions n = 10000"
proof -
  have "(2::rat) ^ 4 \<le> 2 ^ nat (n - 1)"
    by (rule power_increasing) (use assms in auto)
  hence "(10000::rat) \<le> 1000 * 2 ^ nat (n - 1)" by simp
  with assms show ?thesis
    by (simp add: calculateDefaultDelay_def defaultRetryOptions_def power_int_def)
qed

text \<open>
  Claim C7. For every attempt count \<open>n \<ge> 1\<close> the default backoff delay is
  \<open>min (minDelayInMs * backoffFactor ^ (n - 1)) maxDelayInMs\<close>; with the default options
  the delays of attempts 1 to 4 are 1000, 2000, 4000 and 8000 ms, and every attempt from
  5 on is clamped to 10000 ms.
\<close>

theorem default_backoff_formula:
  "(1 \<le> n \<longrightarrow>
      calculateDefaultDelay opts n =
        min (minDelayInMs opts * backoffFactor opts ^ nat (n - 1)) (maxDelayInMs opts))
   \<and> calculateDefaultDelay defaultRetryOptions 1 = 1000
   \<and> calculateDefaultDelay defaultRetryOptions 2 = 2000
   \<and> calculateDefaultDelay defaultRetryOptions 3 = 4000
   \<and> calculateDefaultDelay defaultRetryOptions 4 = 8000
   \<and> (5 \<le> m \<longrightarrow> calculateDefaultDelay defaultRetryOptions m = 10000)"
proof -
  have "1 \<le> n \<longrightarrow>
      calculateDefaultDelay opts n =
        min (minDelayInMs opts * backoffFactor opts ^ nat (n - 1)) (maxDelayInMs opts)"
    by (simp add: calculateDefaultDelay_def power_int_pred)
  moreover have "calculateDefaultDelay defaultRetryOptions 1 = 1000"
    by (simp add: calculateDefaultDelay_def defaultRetryOptions_def)
  moreover have "calculateDefaultDelay defaultRetryOptions 2 = 2000"
    by (simp add: calculateDefaultDelay_def defaultRetryOptions_def)
  moreover have "calculateDefaultDelay defaultRetryOptions 3 = 4000"
    by (simp add: calculateDefaultDelay_def defaultRetryOptions_def)
  moreover have "calculateDefaultDelay defaultRetryOptions 4 = 8000"
    by (simp add: calculateDefaultDelay_def defaultRetryOptions_def)
  moreover have "5 \<le> m \<longrightarrow> calculateDefaultDelay defaultRetryOptions m = 10000"
    by (simp add: default_delay_capped)
  ultimately show ?thesis by blast
qed

theorem default_backoff_formula_witness:
  "calculateDefaultDelay \<lparr>maxRetries = 5, minDelayInMs = 200, maxDelayInMs = 3000,
      backoffFactor = 3\<rparr> 3 = 1800
   \<and> calculateDefaultDelay defaultRetryOptions 7 = 10000"
  using default_backoff_formula
    [of 3 "\<lparr>maxRetries = 5, minDelayInMs = 200, maxDelayInMs = 3000, backoffFactor = 3\<rparr>" 7]
  by simp

lemmas parse_defs =
  parseInt_def isWhiteSpace_def isRadixDigit_def digitValue_def digitsValue_def Let_def

lemma default_delay_range:
  assumes "0 \<le> minDelayInMs opts" "0 \<le> backoffFactor opts" "0 \<le> maxDelayInMs opts" "1 \<le> n"
  shows "0 \<le> calculateDefaultDelay opts n \<and> calculateDefaultDelay opts n \<le> maxDelayInMs opts"
  using assms by (simp add: calculateDefaultDelay_def power_int_pred)

lemma delay_default_branch:
  "\<not> integerHint headers \<Longrightarrow> \<not> dateHint dp headers \<Longrightarrow>
     calculateRetryDelay tb opts dp now n headers b = (calculateDefaultDelay opts n, b)"
  by (auto simp: calculateRetryDelay_def integerHint_def dateHint_def split: number.splits)

lemma delay_integer_branch:
  "truthy headers \<Longrightarrow> truthy (retryAfterHeader headers) \<Longrightarrow>
   Number_parseInt (retryAfterHeader headers) = Num k \<Longrightarrow>
     calculateRetryDelay tb opts dp now n headers b =
       (k * 1000, forceWaitUntilMilisecondsPassed tb (k * 1000) b)"
  by (simp add: calculateRetryDelay_def Let_def)

lemma delay_unparseable_branch:
  "truthy headers \<Longrightarrow> truthy (retryAfterHeader headers) \<Longrightarrow>
   Number_parseInt (retryAfterHeader headers) = NaN \<Longrightarrow>
   Date_parse dp (retryAfterHeader headers) = NaN \<Longrightarrow>
     calculateRetryDelay tb opts dp now n headers b = (calculateDefaultDelay opts n, b)"
  by (simp add: calculateRetryDelay_def)

lemma delay_no_headers:
  "\<not> truthy headers \<Longrightarrow>
     calculateRetryDelay tb opts dp now n headers b = (calculateDefaultDelay opts n, b)"
  by (simp add: calculateRetryDelay_def)

lemma delay_date_value:
  "dateHint dp headers \<Longrightarrow>
     \<exists>t. Date_parse dp (retryAfterHeader headers) = Num t \<and> 0 < t
       \<and> calculateRetryDelay tb opts dp now n headers b =
           (max (t - now) 0, forceWaitUntilMilisecondsPassed tb (max (t - now) 0) b)"
  by (auto simp: calculateRetryDelay_def dateHint_def Let_def split: number.splits)

lemma delay_integer_value:
  "integerHint headers \<Longrightarrow>
     \<exists>k. Number_parseInt (retryAfterHeader headers) = Num k
       \<and> calculateRetryDelay tb opts dp now n headers b =
           (k * 1000, forceWaitUntilMilisecondsPassed tb (k * 1000) b)"
  by (cases "Number_parseInt (retryAfterHeader headers)")
     (auto simp: integerHint_def delay_integer_branch)

text \<open>
  Claim C2, as the code has it. The claim that every computed delay lies in
  \<open>[0, maxDelayInMs]\<close> fails on the hint paths: \<^verbatim>\<open>Retry-After: 60\<close> gives 60000 ms under
  the default cap of 10000 ms.
\<close>

theorem retry_after_hint_not_clamped:
  "\<not> (0 \<le> fst (calculateRetryDelay recordingBucket defaultRetryOptions (\<lambda>s. NaN) 0 1
            (JHeaders [(''retry-after'', ''60'')]) [])
       \<and> fst (calculateRetryDelay recordingBucket defaultRetryOptions (\<lambda>s. NaN) 0 1
            (JHeaders [(''retry-after'', ''60'')]) []) \<le> maxDelayInMs defaultRetryOptions)"
  by (simp add: calculateRetryDelay_def retryAfterHeader_def Number_parseInt_def parse_defs
      defaultRetryOptions_def)

text \<open>
  Claim C2, amended. Take non-negative options, an attempt count of at least 1, and a
  delay the doubles of the code can compute (\<open>delayComputable\<close>: \<open>minDelayInMs\<close> of 1 or
  more, or a power without overflow). A delay that comes from the default backoff, that
  is when no hint is read as a count of seconds or as a date, lies in
  \<open>[0, maxDelayInMs]\<close>. A delay taken from a hint is the server's value and is not
  clamped: \<open>max (t - now) 0\<close> for a hint read as the date \<open>t\<close>, which is never negative,
  and \<open>k * 1000\<close> for a hint read as \<open>k\<close> seconds.
\<close>

theorem retry_delay_bounds:
  assumes "0 \<le> minDelayInMs opts" "0 \<le> backoffFactor opts" "0 \<le> maxDelayInMs opts" "1 \<le> n"
    and "delayComputable opts n"
  shows "(\<not> integerHint headers \<and> \<not> dateHint dp headers \<longrightarrow>
            calculateRetryDelay tb opts dp now n headers b = (calculateDefaultDelay opts n, b)
            \<and> 0 \<le> fst (calculateRetryDelay tb opts dp now n headers b)
            \<and> fst (calculateRetryDelay tb opts dp now n headers b) \<le> maxDelayInMs opts)
       \<and> (dateHint dp headers \<longrightarrow>
            (\<exists>t. Date_parse dp (retryAfterHeader headers) = Num t
               \<and> fst (calculateRetryDelay tb opts dp now n headers b) = max (t - now) 0)
            \<and> 0 \<le> fst (calculateRetryDelay tb opts dp now n headers b))
       \<and> (integerHint headers \<longrightarrow>
            (\<exists>k. Number_parseInt (retryAfterHeader headers) = Num k
               \<and> fst (calculateRetryDelay tb opts dp now n headers b) = k * 1000))"
proof -
  have "calculateRetryDelay tb opts dp now n headers b = (calculateDefaultDelay opts n, b)
            \<and> 0 \<le> fst (calculateRetryDelay tb opts dp now n headers b)
            \<and> fst (calculateRetryDelay tb opts dp now n headers b) \<le> maxDelayInMs opts"
    if "\<not> integerHint headers" "\<not> dateHint dp headers"
    using default_delay_range[OF assms(1-4)] delay_default_branch[OF that, of tb opts now n b]
    by simp
  moreover have "(\<exists>t. Date_parse dp (retryAfterHeader headers) = Num t
               \<and> fst (calculateRetryDelay tb opts dp now n headers b) = max (t - now) 0)
            \<and> 0 \<le> fst (calculateRetryDelay tb opts dp now n headers b)"
    if "dateHint dp headers"
    using delay_date_value[OF that, of tb opts now n b] by auto
  moreover have "\<exists>k. Number_parseInt (retryAfterHeader headers) = Num k
               \<and> fst (calculateRetryDelay tb opts dp now n headers b) = k * 1000"
    if "integerHint headers"
    using delay_integer_value[OF that, of tb opts dp now n b] by auto
  ultimately show ?thesis by blast
qed

theorem retry_delay_bounds_witness:
  "delayComputable defaultRetryOptions 2
   \<and> calculateRetryDelay recordingBucket defaultRetryOptions (\<lambda>s. NaN) 0 2
        (JHeaders [(''retry-after'', ''soon'')]) [] = (2000, [])
   \<and> fst (calculateRetryDelay recordingBucket defaultRetryOptions (\<lambda>s. NaN) 0 2
        (JHeaders [(''retry-after'', ''soon'')]) []) \<le> 10000
   \<and> fst (calculateRetryDelay recordingBucket defaultRetryOptions
        (\<lambda>s. if s = ''Thu, 01 Jan 1970 00:01:00 GMT'' then Num 60000 else NaN) 15000 2
        (JHeaders [(''retry-after'', ''Thu, 01 Jan 1970 00:01:00 GMT'')]) []) = 45000
   \<and> fst (calculateRetryDelay recordingBucket defaultRetryOptions (\<lambda>s. NaN) 0 2
        (JHeaders [(''retry-after'', ''60'')]) []) = 60000"
proof -
  let ?dp = "\<lambda>s. if s = ''Thu, 01 Jan 1970 00:01:00 GMT'' then Num 60000 else NaN"
  let ?soon = "JHeaders [(''retry-after'', ''soon'')]"
  let ?date = "JHeaders [(''retry-after'', ''Thu, 01 Jan 1970 00:01:00 GMT'')]"
  let ?sixty = "JHeaders [(''retry-after'', ''60'')]"
  have o: "0 \<le> minDelayInMs defaultRetryOptions" "0 \<le> backoffFactor defaultRetryOptions"
    "0 \<le> maxDelayInMs defaultRetryOptions" "(1::int) \<le> 2"
    "delayComputable defaultRetryOptions 2"
    by (simp_all add: defaultRetryOptions_def delayComputable_def)
  have soon: "\<not> integerHint ?soon" "\<not> dateHint (\<lambda>s. NaN) ?soon"
    by (simp_all add: integerHint_def dateHint_def retryAfterHeader_def Number_parseInt_def
        Date_parse_def parse_defs)
  have date: "dateHint ?dp ?date" "Date_parse ?dp (retryAfterHeader ?date) = Num 60000"
    by (simp_all add: dateHint_def retryAfterHeader_def Number_parseInt_def
        Date_parse_def parse_defs)
  have sixty: "integerHint ?sixty" "Number_parseInt (retryAfterHeader ?sixty) = Num 60"
    by (simp_all add: integerHint_def retryAfterHeader_def Number_parseInt_def parse_defs)
  have d: "calculateDefaultDelay defaultRetryOptions 2 = 2000"
    by (simp add: calculateDefaultDelay_def defaultRetryOptions_def)
  show ?thesis
    using retry_delay_bounds[OF o, of ?soon "\<lambda>s. NaN" recordingBucket 0 "[]"]
      retry_delay_bounds[OF o, of ?date ?dp recordingBucket 15000 "[]"]
      retry_delay_bounds[OF o, of ?sixty "\<lambda>s. NaN" recordingBucket 0 "[]"]
      o(5) soon date sixty d
    by (simp add: defaultRetryOptions_def)
qed

text \<open>
  Claim C6. When the headers carry a Retry-After hint that parses as the integer \<open>k\<close>,
  \<^verbatim>\<open>calculateRetryDelay\<close> returns exactly \<open>k * 1000\<close> ms and calls
  \<^verbatim>\<open>forceWaitUntilMilisecondsPassed\<close> with that delay, so \<^verbatim>\<open>Retry-After: 5\<close> gives 5000 ms;
  when the hint is present and parses neither as an integer nor as a date, the delay is
  the default backoff of that attempt and the limiter is left alone.
\<close>

theorem retry_after_seconds:
  "(truthy headers \<and> truthy (retryAfterHeader headers)
      \<and> Number_parseInt (retryAfterHeader headers) = Num k \<longrightarrow>
      calculateRetryDelay tb opts dp now n headers b =
        (k * 1000, forceWaitUntilMilisecondsPassed tb (k * 1000) b))
   \<and> calculateRetryDelay tb opts dp now n (JHeaders [(''retry-after'', ''5'')]) b =
        (5000, forceWaitUntilMilisecondsPassed tb 5000 b)
   \<and> calculateRetryDelay tb opts dp now n (JObj [(''Retry-After'', JStr ''5'')]) b =
        (5000, forceWaitUntilMilisecondsPassed tb 5000 b)
   \<and> (truthy headers \<and> truthy (retryAfterHeader headers)
      \<and> Number_parseInt (retryAfterHeader headers) = NaN
      \<and> Date_parse dp (retryAfterHeader headers) = NaN \<longrightarrow>
      calculateRetryDelay tb opts dp now n headers b = (calculateDefaultDelay opts n, b))"
proof -
  have "calculateRetryDelay tb opts dp now n (JHeaders [(''retry-after'', ''5'')]) b =
        (5000, forceWaitUntilMilisecondsPassed tb 5000 b)"
    by (simp add: calculateRetryDelay_def retryAfterHeader_def Number_parseInt_def parse_defs)
  moreover have "calculateRetryDelay tb opts dp now n (JObj [(''Retry-After'', JStr ''5'')]) b =
        (5000, forceWaitUntilMilisecondsPassed tb 5000 b)"
    by (simp add: calculateRetryDelay_def retryAfterHeader_def Number_parseInt_def parse_defs)
  ultimately show ?thesis
    using delay_integer_branch[of headers k tb opts dp now n b]
      delay_unparseable_branch[of headers dp tb opts now n b]
    by blast
qed

theorem retry_after_seconds_witness:
  "calculateRetryDelay recordingBucket defaultRetryOptions (\<lambda>s. NaN) 0 2
      (JHeaders [(''retry-after'', ''120'')]) [] = (120000, [120000])
   \<and> calculateRetryDelay recordingBucket defaultRetryOptions (\<lambda>s. NaN) 0 2
      (JObj [(''Retry-After'', JStr ''soon'')]) [] = (2000, [])"
proof -
  have a: "truthy (JHeaders [(''retry-after'', ''120'')])
      \<and> truthy (retryAfterHeader (JHeaders [(''retry-after'', ''120'')]))
      \<and> Number_parseInt (retryAfterHeader (JHeaders [(''retry-after'', ''120'')])) = Num 120"
    by (simp add: retryAfterHeader_def Number_parseInt_def parse_defs)
  have b: "truthy (JObj [(''Retry-After'', JStr ''soon'')])
      \<and> truthy (retryAfterHeader (JObj [(''Retry-After'', JStr ''soon'')]))
      \<and> Number_parseInt (retryAfterHeader (JObj [(''Retry-After'', JStr ''soon'')])) = NaN
      \<and> Date_parse (\<lambda>s. NaN) (retryAfterHeader (JObj [(''Retry-After'', JStr ''soon'')])) = NaN"
    by (simp add: retryAfterHeader_def Number_parseInt_def Date_parse_def parse_defs)
  have d: "calculateDefaultDelay defaultRetryOptions 2 = 2000"
    by (simp add: calculateDefaultDelay_def defaultRetryOptions_def)
  show ?thesis
    using retry_after_seconds[of "JHeaders [(''retry-after'', ''120'')]" 120 recordingBucket
        defaultRetryOptions "\<lambda>s. NaN" 0 2 "[]"]
      retry_after_seconds[of "JObj [(''Retry-After'', JStr ''soon'')]" 0 recordingBucket
        defaultRetryOptions "\<lambda>s. NaN" 0 2 "[]"] a b d
    by (simp add: recordingBucket_def)
qed

section \<open>Properties of the classifier\<close>

lemma parseInt_shape:
  "\<exists>Z sg R. parseInt s = (if Z = [] then NaN else Num (of_int (sg * int (digitsValue R Z))))"
  unfolding parseInt_def Let_def by blast

lemma parseInt_integer: "parseInt s = Num c \<Longrightarrow> c \<in> \<int>"
proof -
  assume a: "parseInt s = Num c"
  obtain Z sg R where
    "parseInt s = (if Z = [] then NaN else Num (of_int (sg * int (digitsValue R Z))))"
    using parseInt_shape by blast
  with a show ?thesis by (cases "Z = []") auto
qed

lemma asNumbers_set: "set (asNumbers vs) = {c. JNum (Num c) \<in> set vs}"
  by (induction vs rule: asNumbers.induct) auto

lemma coerceStatus_eq:
  "coerceStatus x = JNum (Num c) \<longleftrightarrow>
     (x = JNum (Num c) \<or> (\<exists>s. x = JStr s \<and> parseInt s = Num c))"
  by (auto simp: coerceStatus_def split: jsval.splits number.splits)

lemma coerceStatus_eq':
  "JNum (Num c) = coerceStatus x \<longleftrightarrow>
     (x = JNum (Num c) \<or> (\<exists>s. x = JStr s \<and> parseInt s = Num c))"
  using coerceStatus_eq[of x c] by auto

lemma isRateLimitedError_loop_iff: "isRateLimitedError_loop cs \<longleftrightarrow> 429 \<in> set cs"
  by (induction cs) auto

lemma isClientSideError_loop_iff:
  "isClientSideError_loop cs \<longleftrightarrow> (\<exists>c \<in> set cs. 400 \<le> c \<and> c < 500)"
  by (induction cs) auto

lemma extract_mem:
  "c \<in> set (extractStatusCodeProperties v) \<longleftrightarrow>
     c \<noteq> 0 \<and> (\<exists>x \<in> set (statusCodes v).
            x = JNum (Num c) \<or> (\<exists>s. x = JStr s \<and> parseInt s = Num c))"
  unfolding extractStatusCodeProperties_def asNumbers_set
  by (simp add: image_iff coerceStatus_eq' conj_commute)

lemma extract_set:
  "set (extractStatusCodeProperties v) =
     {c. c \<noteq> 0 \<and> (\<exists>x \<in> set (statusCodes v).
            x = JNum (Num c) \<or> (\<exists>s. x = JStr s \<and> parseInt s = Num c))}"
  using extract_mem by blast

lemma rate_limited_is_client_side: "isRateLimitedError v \<Longrightarrow> isClientSideError v"
  unfolding isRateLimitedError_def isClientSideError_def Let_def
    isRateLimitedError_loop_iff isClientSideError_loop_iff
  by (rule bexI[of _ 429]) simp_all

lemma quarter_not_integer: "(1717 / 4 :: rat) \<notin> \<int>"
proof
  assume "(1717 / 4 :: rat) \<in> \<int>"
  then obtain z :: int where "(1717 / 4 :: rat) = of_int z" by (auto elim: Ints_cases)
  then have "(of_int 1717 :: rat) = of_int (4 * z)" by simp
  then have "1717 = 4 * z" by (simp only: of_int_eq_iff)
  then show False by presburger
qed

text \<open>
  Claim C8, as the code has it. A candidate that is a number is not coerced to an
  integer: \<^verbatim>\<open>{status: 429.25}\<close> has the one candidate 429.25 and is not rate-limited.
  And not only the values that are not numeric are discarded: \<^verbatim>\<open>{status: 0}\<close> has no
  candidate, since \<^verbatim>\<open>.filter(Boolean)\<close> drops 0.
\<close>

theorem classifier_candidates_not_coerced:
  "extractStatusCodeProperties (JObj [(''status'', JNum (Num (1717 / 4)))]) = [1717 / 4]
   \<and> (1717 / 4 :: rat) \<notin> \<int>
   \<and> \<not> isRateLimitedError (JObj [(''status'', JNum (Num (1717 / 4)))])
   \<and> extractStatusCodeProperties (JObj [(''status'', JNum (Num 0))]) = []"
  using quarter_not_integer
  by (simp add: isRateLimitedError_def extractStatusCodeProperties_def statusCodes_def
      coerceStatus_def)

text \<open>
  Claim C8, amended. The candidates of the default classifier are the values at the five
  fixed locations of \<open>statusCodes\<close> that are numbers, taken as they are, or strings
  \<^verbatim>\<open>parseInt\<close> reads, replaced by the integer it reads; every other value is discarded,
  and so is a candidate equal to 0. A value is rate-limited exactly when some candidate
  equals 429 and a client-side error exactly when some candidate lies in \<open>[400, 500)\<close>,
  each verdict decided by its own test over the same candidates.
\<close>

theorem default_classifier_verdicts:
  "set (extractStatusCodeProperties v) =
     {c. c \<noteq> 0 \<and> (\<exists>x \<in> set (statusCodes v).
            x = JNum (Num c) \<or> (\<exists>s. x = JStr s \<and> parseInt s = Num c))}
   \<and> (\<forall>s c. parseInt s = Num c \<longrightarrow> c \<in> \<int>)
   \<and> (isRateLimitedError v \<longleftrightarrow> (\<exists>c \<in> set (extractStatusCodeProperties v). c = 429))
   \<and> (isClientSideError v \<longleftrightarrow>
        (\<exists>c \<in> set (extractStatusCodeProperties v). 400 \<le> c \<and> c < 500))"
  using extract_set[of v] parseInt_integer
  by (simp add: isRateLimitedError_def isClientSideError_def isRateLimitedError_loop_iff
      isClientSideError_loop_iff)

theorem default_classifier_verdicts_witness:
  "extractStatusCodeProperties
      (JObj [(''response'', JObj [(''status'', JStr ''429'')]), (''code'', JStr ''ECONNRESET'')])
     = [429]
   \<and> isRateLimitedError
      (JObj [(''response'', JObj [(''status'', JStr ''429'')]), (''code'', JStr ''ECONNRESET'')])
   \<and> isClientSideError
      (JObj [(''response'', JObj [(''status'', JStr ''429'')]), (''code'', JStr ''ECONNRESET'')])
   \<and> \<not> isRateLimitedError (JObj [(''status'', JNum (Num 404))])
   \<and> isClientSideError (JObj [(''status'', JNum (Num 404))])"
proof -
  have a: "extractStatusCodeProperties
      (JObj [(''response'', JObj [(''status'', JStr ''429'')]), (''code'', JStr ''ECONNRESET'')])
     = [429]"
    by (simp add: extractStatusCodeProperties_def statusCodes_def coerceStatus_def parse_defs)
  have b: "extractStatusCodeProperties (JObj [(''status'', JNum (Num 404))]) = [404]"
    by (simp add: extractStatusCodeProperties_def statusCodes_def coerceStatus_def)
  show ?thesis
    using default_classifier_verdicts[of
        "JObj [(''response'', JObj [(''status'', JStr ''429'')]), (''code'', JStr ''ECONNRESET'')]"]
      default_classifier_verdicts[of "JObj [(''status'', JNum (Num 404))]"] a b
    by simp
qed

section \<open>Properties of the retry engine\<close>

lemma executeWithRetry_handlers:
  "executeWithRetry C E tryCount lastResponse lastError w =
     (case awaitToken (consumeAsync (tokenBucket C)) (bucket w) of
        None \<Rightarrow> None
      | Some b \<Rightarrow>
          if tryCount > maxRetries (retryOptions C) + 1 then
            (if truthy lastError then Some (Rejected lastError, w\<lparr>bucket := b\<rparr>)
             else Some (Fulfilled lastResponse, w\<lparr>bucket := b\<rparr>))
          else
            (let w1 = w\<lparr>bucket := b,
                        attempts := attempts w @ [(tryCount, fn E (length (attempts w)))]\<rparr>;
                 thenResult =
                   (case fn E (length (attempts w)) of
                      Rejected err \<Rightarrow> Some (Rejected err, w1)
                    | Fulfilled result \<Rightarrow> thenHandler C E tryCount lastError result w1)
             in case thenResult of
                  None \<Rightarrow> None
                | Some (Fulfilled v, w2) \<Rightarrow> Some (Fulfilled v, w2)
                | Some (Rejected err, w2) \<Rightarrow> catchHandler C E tryCount lastResponse err w2))"
  by (subst executeWithRetry.simps, unfold thenHandler_def catchHandler_def, rule refl)

lemma backwards_induct [consumes 0, case_names beyond last early]:
  fixes m :: int
  assumes "\<And>n. m < n \<Longrightarrow> P n" "P m" "\<And>n. n < m \<Longrightarrow> P (n + 1) \<Longrightarrow> P n"
  shows "P n"
proof (induction "nat (m - n)" arbitrary: n)
  case 0
  then have "m \<le> n" by simp
  then show ?case using assms(1)[of n] assms(2) by (cases "m = n") auto
next
  case (Suc k)
  then have "n < m" "k = nat (m - (n + 1))" by linarith+
  then show ?case using Suc.hyps(1)[of "n + 1"] assms(3)[of n] by blast
qed

lemma exec_beyond:
  "awaitToken (consumeAsync (tokenBucket C)) (bucket w) = Some b \<Longrightarrow>
   maxRetries (retryOptions C) + 1 < n \<Longrightarrow>
     executeWithRetry C E n lr le w =
       Some (if truthy le then Rejected le else Fulfilled lr, w\<lparr>bucket := b\<rparr>)"
  by (subst executeWithRetry_handlers) simp

lemma exec_rejected:
  "awaitToken (consumeAsync (tokenBucket C)) (bucket w) = Some b \<Longrightarrow>
   n \<le> maxRetries (retryOptions C) + 1 \<Longrightarrow>
   fn E (length (attempts w)) = Rejected err \<Longrightarrow>
     executeWithRetry C E n lr le w =
       catchHandler C E n lr err
         (w\<lparr>bucket := b, attempts := attempts w @ [(n, Rejected err)]\<rparr>)"
  by (subst executeWithRetry_handlers) (simp add: Let_def)

lemma exec_fulfilled:
  "awaitToken (consumeAsync (tokenBucket C)) (bucket w) = Some b \<Longrightarrow>
   n \<le> maxRetries (retryOptions C) + 1 \<Longrightarrow>
   fn E (length (attempts w)) = Fulfilled r \<Longrightarrow>
     executeWithRetry C E n lr le w =
       (case thenHandler C E n le r
               (w\<lparr>bucket := b, attempts := attempts w @ [(n, Fulfilled r)]\<rparr>) of
          None \<Rightarrow> None
        | Some (Fulfilled v, w2) \<Rightarrow> Some (Fulfilled v, w2)
        | Some (Rejected err, w2) \<Rightarrow> catchHandler C E n lr err w2)"
  by (subst executeWithRetry_handlers) (simp add: Let_def)

lemma exec_token:
  "executeWithRetry C E n lr le w = Some x \<Longrightarrow>
     \<exists>b. awaitToken (consumeAsync (tokenBucket C)) (bucket w) = Some b"
  by (subst (asm) executeWithRetry_handlers) (simp split: option.splits)

lemma exec_total:
  assumes tokens: "\<forall>b. awaitToken (consumeAsync (tokenBucket C)) b \<noteq> None"
  shows "executeWithRetry C E n lr le w \<noteq> None"
proof (induction n arbitrary: lr le w rule: backwards_induct[where m = "maxRetries (retryOptions C) + 1"])
  case (beyond n)
  obtain b where "awaitToken (consumeAsync (tokenBucket C)) (bucket w) = Some b"
    using tokens by blast
  with beyond show ?case by (simp add: exec_beyond)
next
  case last
  obtain b where b: "awaitToken (consumeAsync (tokenBucket C)) (bucket w) = Some b"
    using tokens by blast
  show ?case
  proof (cases "fn E (length (attempts w))")
    case (Fulfilled r)
    then show ?thesis using b by (simp add: exec_fulfilled thenHandler_def)
  next
    case (Rejected err)
    then show ?thesis using b by (simp add: exec_rejected catchHandler_def)
  qed
next
  case (early n)
  obtain b where b: "awaitToken (consumeAsync (tokenBucket C)) (bucket w) = Some b"
    using tokens by blast
  have c: "catchHandler C E n lr' err w2 \<noteq> None" for lr' err w2
    using early.IH by (simp add: catchHandler_def split: prod.splits)
  have t: "thenHandler C E n le r w1 \<noteq> None" for r w1
    using early.IH by (simp add: thenHandler_def split: prod.splits)
  show ?case
  proof (cases "fn E (length (attempts w))")
    case (Fulfilled r)
    obtain o1 w2 where
      "thenHandler C E n le r (w\<lparr>bucket := b, attempts := attempts w @ [(n, Fulfilled r)]\<rparr>)
         = Some (o1, w2)"
      using t by fastforce
    then show ?thesis using b early.hyps Fulfilled c[of lr _ w2]
      by (cases o1) (simp_all add: exec_fulfilled)
  next
    case (Rejected err)
    then show ?thesis using b early.hyps c by (simp add: exec_rejected)
  qed
qed

lemma ci_fulfilled: "completedInv C [(n, Fulfilled r)] out"
  by (simp add: completedInv_def rejectedEarly_def)

lemma ci_last: "n = maxRetries (retryOptions C) + 1 \<Longrightarrow> completedInv C [(n, x)] out"
  by (simp add: completedInv_def rejectedEarly_def)

lemma ci_terminal:
  "terminalVerdict C err \<Longrightarrow> completedInv C [(n, Rejected err)] (Rejected err)"
  by (simp add: completedInv_def rejectedEarly_def)

lemma ci_nullish:
  "\<not> terminalVerdict C err \<Longrightarrow> nullish err \<Longrightarrow>
     completedInv C [(n, Rejected err)] (Rejected TypeError_headers)"
  by (simp add: completedInv_def rejectedEarly_def)

lemma ci_cons:
  "\<forall>err. rejectedEarly C a err \<longrightarrow> \<not> terminalVerdict C err \<Longrightarrow> completedInv C new out \<Longrightarrow>
     completedInv C (a # new) out"
  by (simp add: completedInv_def)

lemma set_butlast_last: "xs \<noteq> [] \<Longrightarrow> set xs = insert (last xs) (set (butlast xs))"
  by (metis append_butlast_last_id list.simps(15) rotate1.simps(2) set_rotate1)

lemma ci_append:
  assumes "completedInv C new1 (Rejected e1)" "\<not> terminalVerdict C e1" "completedInv C new2 out"
  shows "completedInv C (new1 @ new2) out"
proof -
  have n1: "new1 \<noteq> []" and n2: "new2 \<noteq> []" using assms by (simp_all add: completedInv_def)
  have l1: "\<forall>err. rejectedEarly C (last new1) err \<longrightarrow> \<not> terminalVerdict C err"
    using assms(1,2) by (auto simp: completedInv_def)
  have "\<forall>a \<in> set new1. \<forall>err. rejectedEarly C a err \<longrightarrow> \<not> terminalVerdict C err"
    using assms(1) l1 set_butlast_last[OF n1] by (auto simp: completedInv_def)
  then show ?thesis
    using assms(3) n2 by (auto simp: completedInv_def butlast_append)
qed

lemma ci_retype:
  assumes "completedInv C new1 (Rejected e1)" "\<not> terminalVerdict C e1"
  shows "completedInv C new1 (Rejected TypeError_headers)"
  using assms by (auto simp: completedInv_def split: if_splits)

lemma TypeError_not_nullish: "\<not> nullish TypeError_headers"
  by (simp add: TypeError_headers_def)

text \<open>The second handler, entered with the rejection of a completed inner call.\<close>

lemma catch_after_inner:
  assumes IH: "\<And>lr le w out w'. executeWithRetry C E (n + 1) lr le w = Some (out, w')
                  \<Longrightarrow> engineInv C (n + 1) w out w'"
    and n: "n < maxRetries (retryOptions C) + 1"
    and inner: "attempts w2 = attempts w @ new1" "completedInv C new1 (Rejected e1)"
    and c: "catchHandler C E n lr e1 w2 = Some (out, w')"
  shows "\<exists>new. attempts w' = attempts w @ new \<and> completedInv C new out"
proof (cases "terminalVerdict C e1")
  case True
  then have "out = Rejected e1" "w' = w2"
    using c n by (simp_all add: catchHandler_def terminalVerdict_def)
  then show ?thesis using inner by blast
next
  case nt: False
  show ?thesis
  proof (cases "nullish e1")
    case True
    then have "out = Rejected TypeError_headers" "w' = w2"
      using c n nt by (auto simp: catchHandler_def terminalVerdict_def)
    then show ?thesis using inner nt ci_retype by blast
  next
    case False
    obtain delay b' where d: "calculateRetryDelay (tokenBucket C) (retryOptions C)
                (dateParse E) (clock E (length (attempts w2))) n
                (errorHeaders e1) (bucket w2) = (delay, b')"
      by fastforce
    let ?w3 = "w2\<lparr>bucket := b', delays := delays w2 @ [delay]\<rparr>"
    have "executeWithRetry C E (n + 1) lr e1 ?w3 = Some (out, w')"
      using c n nt False d by (auto simp: catchHandler_def terminalVerdict_def)
    from IH[OF this] n obtain new2 where
      "attempts w' = attempts ?w3 @ new2" "completedInv C new2 out"
      by (auto simp: engineInv_def)
    then have "attempts w' = attempts w @ (new1 @ new2)" using inner by simp
    moreover have "completedInv C (new1 @ new2) out"
      using ci_append[OF inner(2) nt \<open>completedInv C new2 out\<close>] .
    ultimately show ?thesis by blast
  qed
qed

text \<open>The second handler, entered with the rejection of this level's own attempt.\<close>

lemma catch_direct:
  assumes IH: "\<And>lr le w out w'. executeWithRetry C E (n + 1) lr le w = Some (out, w')
                  \<Longrightarrow> engineInv C (n + 1) w out w'"
    and n: "n < maxRetries (retryOptions C) + 1"
    and w2: "attempts w2 = attempts w @ [(n, Rejected err)]"
    and c: "catchHandler C E n lr err w2 = Some (out, w')"
  shows "\<exists>new. attempts w' = attempts w @ new \<and> completedInv C new out"
proof (cases "terminalVerdict C err")
  case True
  then have "out = Rejected err" "w' = w2"
    using c n by (simp_all add: catchHandler_def terminalVerdict_def)
  then show ?thesis using w2 ci_terminal[OF True] by blast
next
  case nt: False
  show ?thesis
  proof (cases "nullish err")
    case True
    then have "out = Rejected TypeError_headers" "w' = w2"
      using c n nt by (auto simp: catchHandler_def terminalVerdict_def)
    then show ?thesis using w2 ci_nullish[OF nt True] by blast
  next
    case False
    obtain delay b' where d: "calculateRetryDelay (tokenBucket C) (retryOptions C)
                (dateParse E) (clock E (length (attempts w2))) n
                (errorHeaders err) (bucket w2) = (delay, b')"
      by fastforce
    let ?w3 = "w2\<lparr>bucket := b', delays := delays w2 @ [delay]\<rparr>"
    have "executeWithRetry C E (n + 1) lr err ?w3 = Some (out, w')"
      using c n nt False d by (auto simp: catchHandler_def terminalVerdict_def)
    from IH[OF this] n obtain new2 where
      n2: "attempts w' = attempts ?w3 @ new2" "completedInv C new2 out"
      by (auto simp: engineInv_def)
    have "\<forall>e. rejectedEarly C (n, Rejected err) e \<longrightarrow> \<not> terminalVerdict C e"
      using nt by (simp add: rejectedEarly_def)
    from ci_cons[OF this n2(2)] n2(1) w2 show ?thesis by auto
  qed
qed

lemma exec_inv:
  "executeWithRetry C E n lr le w = Some (out, w') \<Longrightarrow> engineInv C n w out w'"
proof (induction n arbitrary: lr le w out w'
    rule: backwards_induct[where m = "maxRetries (retryOptions C) + 1"])
  case (beyond n)
  obtain b where b: "awaitToken (consumeAsync (tokenBucket C)) (bucket w) = Some b"
    using exec_token[OF beyond.prems] by blast
  have "w' = w\<lparr>bucket := b\<rparr>"
    using beyond exec_beyond[OF b beyond.hyps, of E lr le] by simp
  then show ?case using beyond.hyps by (simp add: engineInv_def)
next
  case last
  let ?m = "maxRetries (retryOptions C) + 1"
  obtain b where b: "awaitToken (consumeAsync (tokenBucket C)) (bucket w) = Some b"
    using exec_token[OF last.prems] by blast
  show ?case
  proof (cases "fn E (length (attempts w))")
    case (Fulfilled r)
    have "executeWithRetry C E ?m lr le w =
        Some (Fulfilled r, w\<lparr>bucket := b, attempts := attempts w @ [(?m, Fulfilled r)]\<rparr>)"
      by (simp add: exec_fulfilled[OF b _ Fulfilled] thenHandler_def)
    with last.prems
    have "w' = w\<lparr>bucket := b, attempts := attempts w @ [(?m, Fulfilled r)]\<rparr>"
      by auto
    then show ?thesis using ci_last[of ?m C] by (simp add: engineInv_def)
  next
    case (Rejected err)
    have "executeWithRetry C E ?m lr le w =
        Some (Rejected err, w\<lparr>bucket := b, attempts := attempts w @ [(?m, Rejected err)]\<rparr>)"
      by (simp add: exec_rejected[OF b _ Rejected] catchHandler_def)
    with last.prems
    have "w' = w\<lparr>bucket := b, attempts := attempts w @ [(?m, Rejected err)]\<rparr>"
      by auto
    then show ?thesis using ci_last[of ?m C] by (simp add: engineInv_def)
  qed
next
  case (early n)
  obtain b where b: "awaitToken (consumeAsync (tokenBucket C)) (bucket w) = Some b"
    using exec_token[OF early.prems] by blast
  have le: "n \<le> maxRetries (retryOptions C) + 1" using early.hyps by simp
  have goal: "engineInv C n w out w'"
    if "\<exists>new. attempts w' = attempts w @ new \<and> completedInv C new out"
    using that early.hyps by (simp add: engineInv_def)
  show ?case
  proof (cases "fn E (length (attempts w))")
    case (Rejected err)
    let ?w1 = "w\<lparr>bucket := b, attempts := attempts w @ [(n, Rejected err)]\<rparr>"
    have "catchHandler C E n lr err ?w1 = Some (out, w')"
      using early.prems exec_rejected[OF b le Rejected, of lr le] by simp
    from catch_direct[where w = w, OF early.IH early.hyps _ this] show ?thesis
      by (intro goal) simp
  next
    case (Fulfilled r)
    let ?w1 = "w\<lparr>bucket := b, attempts := attempts w @ [(n, Fulfilled r)]\<rparr>"
    have ex: "(case thenHandler C E n le r ?w1 of
          None \<Rightarrow> None
        | Some (Fulfilled v, w2) \<Rightarrow> Some (Fulfilled v, w2)
        | Some (Rejected err, w2) \<Rightarrow> catchHandler C E n lr err w2) = Some (out, w')"
      using early.prems exec_fulfilled[OF b le Fulfilled, of lr le] by simp
    then obtain o1 w2 where t: "thenHandler C E n le r ?w1 = Some (o1, w2)"
      by (cases "thenHandler C E n le r ?w1") auto
    have inner: "\<exists>new1. attempts w2 = attempts w @ new1 \<and> completedInv C new1 o1"
    proof (cases "isRateLimited (identifyResult (resultIdentifier C) r)")
      case False
      then have "o1 = Fulfilled r" "w2 = ?w1"
        using t early.hyps by (auto simp: thenHandler_def)
      then show ?thesis using ci_fulfilled[of C n r] by simp
    next
      case rl: True
      show ?thesis
      proof (cases "nullish r")
        case True
        then have "w2 = ?w1"
          using t early.hyps rl by (auto simp: thenHandler_def)
        then show ?thesis using ci_fulfilled[of C n r] by simp
      next
        case False
        obtain delay b' where d: "calculateRetryDelay (tokenBucket C) (retryOptions C)
                   (dateParse E) (clock E (length (attempts ?w1))) n
                   (getProp r ''headers'') (bucket ?w1) = (delay, b')"
          by fastforce
        let ?w3 = "?w1\<lparr>bucket := b', delays := delays ?w1 @ [delay]\<rparr>"
        have "executeWithRetry C E (n + 1) r le ?w3 = Some (o1, w2)"
          using t early.hyps rl False d by (simp add: thenHandler_def)
        from early.IH[OF this] early.hyps obtain new1 where
          n1: "attempts w2 = attempts ?w3 @ new1" "completedInv C new1 o1"
          by (auto simp: engineInv_def)
        have "\<forall>e. rejectedEarly C (n, Fulfilled r) e \<longrightarrow> \<not> terminalVerdict C e"
          by (simp add: rejectedEarly_def)
        from ci_cons[OF this n1(2)] n1(1) show ?thesis by auto
      qed
    qed
    then obtain new1 where n1: "attempts w2 = attempts w @ new1" "completedInv C new1 o1"
      by blast
    show ?thesis
    proof (cases o1)
      case (Fulfilled v)
      then have "out = o1" "w' = w2" using ex t by auto
      then show ?thesis using n1 by (intro goal) blast
    next
      case (Rejected e1)
      then have "catchHandler C E n lr e1 w2 = Some (out, w')" using ex t by simp
      from catch_after_inner[OF early.IH early.hyps n1(1) n1(2)[unfolded Rejected] this]
      show ?thesis by (intro goal)
    qed
  qed
qed

lemma completedInv_attempt:
  assumes "completedInv C (pre @ a # post) out" "rejectedEarly C a err"
  shows "((post = [] \<and> out = Rejected err) \<longleftrightarrow> terminalVerdict C err)
       \<and> (\<not> terminalVerdict C err \<and> \<not> nullish err \<longrightarrow> post \<noteq> [])"
proof (cases "post = []")
  case True
  then have "last (pre @ a # post) = a" by simp
  then have "if terminalVerdict C err then out = Rejected err
             else nullish err \<and> out = Rejected TypeError_headers"
    using assms by (simp add: completedInv_def)
  then show ?thesis using True TypeError_not_nullish by (auto split: if_splits)
next
  case False
  then have "a \<in> set (butlast (pre @ a # post))" by (simp add: butlast_append)
  then have "\<not> terminalVerdict C err" using assms by (auto simp: completedInv_def)
  then show ?thesis using False by simp
qed








lemma upto_first: "n \<le> m \<Longrightarrow> [n..m] = n # [n + 1..m]"
  by (simp add: upto_rec1)


lemma always_rejected_run:
  assumes tokens: "\<forall>b. awaitToken (consumeAsync (tokenBucket C)) b \<noteq> None"
    and rj: "\<forall>k. \<not> terminalVerdict C (e k) \<and> \<not> nullish (e k) \<and> fn E k = Rejected (e k)"
  shows "n \<le> maxRetries (retryOptions C) + 1 \<Longrightarrow>
     \<exists>w'. executeWithRetry C E n lr le w =
            Some (Rejected (e (length (attempts w) + nat (maxRetries (retryOptions C) + 1 - n))), w')
         \<and> map fst (attempts w') = map fst (attempts w) @ [n..maxRetries (retryOptions C) + 1]"
proof (induction n arbitrary: lr le w
    rule: backwards_induct[where m = "maxRetries (retryOptions C) + 1"])
  case (beyond n)
  then show ?case by simp
next
  case last
  obtain b where b: "awaitToken (consumeAsync (tokenBucket C)) (bucket w) = Some b"
    using tokens by blast
  have f: "fn E (length (attempts w)) = Rejected (e (length (attempts w)))" using rj by simp
  show ?case
    by (simp add: exec_rejected[OF b _ f] catchHandler_def)
next
  case (early n)
  let ?k = "length (attempts w)"
  obtain b where b: "awaitToken (consumeAsync (tokenBucket C)) (bucket w) = Some b"
    using tokens by blast
  have f: "fn E ?k = Rejected (e ?k)" using rj by simp
  have le: "n \<le> maxRetries (retryOptions C) + 1" using early.hyps by simp
  let ?w1 = "w\<lparr>bucket := b, attempts := attempts w @ [(n, Rejected (e ?k))]\<rparr>"
  obtain delay b' where d: "calculateRetryDelay (tokenBucket C) (retryOptions C)
             (dateParse E) (clock E (length (attempts ?w1))) n
             (errorHeaders (e ?k)) (bucket ?w1) = (delay, b')"
    by fastforce
  let ?w3 = "?w1\<lparr>bucket := b', delays := delays ?w1 @ [delay]\<rparr>"
  have t: "catchHandler C E n lr (e ?k) ?w1 = executeWithRetry C E (n + 1) lr (e ?k) ?w3"
    using early.hyps rj d by (auto simp: catchHandler_def terminalVerdict_def)
  from early.IH[of lr "e ?k" ?w3] early.hyps obtain w' where
    w': "executeWithRetry C E (n + 1) lr (e ?k) ?w3 =
           Some (Rejected (e (length (attempts ?w3)
                  + nat (maxRetries (retryOptions C) + 1 - (n + 1)))), w')"
        "map fst (attempts w') = map fst (attempts ?w3) @ [n + 1..maxRetries (retryOptions C) + 1]"
    by auto
  have idx: "length (attempts ?w3) + nat (maxRetries (retryOptions C) + 1 - (n + 1))
        = ?k + nat (maxRetries (retryOptions C) + 1 - n)"
    using early.hyps by simp
  have "executeWithRetry C E n lr le w =
      Some (Rejected (e (?k + nat (maxRetries (retryOptions C) + 1 - n))), w')"
    using w'(1) unfolding idx by (simp add: exec_rejected[OF b le f] t)
  moreover have "map fst (attempts w') = map fst (attempts w) @ [n..maxRetries (retryOptions C) + 1]"
    using w'(2) upto_first[OF le] by simp
  ultimately show ?case by blast
qed

lemma terminal_first_attempt:
  assumes b: "awaitToken (consumeAsync (tokenBucket C)) (bucket w) = Some b"
    and m: "0 \<le> maxRetries (retryOptions C)"
    and f: "fn E (length (attempts w)) = Rejected err"
    and t: "terminalVerdict C err"
  shows "executeAndHandleErrors C E w =
     Some (Rejected err, w\<lparr>bucket := b, attempts := attempts w @ [(1, Rejected err)]\<rparr>)"
proof -
  have "1 \<le> maxRetries (retryOptions C) + 1" using m by simp
  from exec_rejected[OF b this f] show ?thesis
    using t by (simp add: executeAndHandleErrors_def catchHandler_def terminalVerdict_def)
qed

lemma awaitToken_granted:
  "consume b = (True, b') \<Longrightarrow> awaitToken consume b = Some b'"
  by (subst awaitToken.simps) simp

lemma awaitToken_recording: "awaitToken (consumeAsync recordingBucket) b = Some b"
  by (simp add: awaitToken_granted recordingBucket_def)



text \<open>A limiter that never grants a token: the polling loop never ends, and neither does the call.\<close>

lemma awaitToken_closed_aux:
  assumes "awaitToken c b = Some y"
  shows "c \<noteq> consumeAsync closedBucket"
proof (rule awaitToken.raw_induct[where P = "\<lambda>c b y. c \<noteq> consumeAsync closedBucket", OF _ assms])
  fix f :: "(unit \<Rightarrow> bool \<times> unit) \<Rightarrow> unit \<Rightarrow> unit option" and consume b y
  assume IH: "\<And>c b y. f c b = Some y \<Longrightarrow> c \<noteq> consumeAsync closedBucket"
    and s: "(case consume b of (granted, b') \<Rightarrow> if granted then Some b' else f consume b') = Some y"
  show "consume \<noteq> consumeAsync closedBucket"
  proof
    assume c: "consume = consumeAsync closedBucket"
    then have "f consume b = Some y" using s by (simp add: closedBucket_def)
    from IH[OF this] c show False by simp
  qed
qed

lemma awaitToken_closed: "awaitToken (consumeAsync closedBucket) b = None"
  using awaitToken_closed_aux[of "consumeAsync closedBucket" b]
  by (cases "awaitToken (consumeAsync closedBucket) b") auto

lemma never_granted_never_settles:
  "executeWithRetry (C\<lparr>tokenBucket := closedBucket\<rparr>) E n lr le w = None"
  by (subst executeWithRetry.simps) (simp add: awaitToken_closed)

lemma defaultCaller_tokens:
  "\<forall>b. awaitToken (consumeAsync (tokenBucket defaultCaller)) b \<noteq> None"
  by (simp add: defaultCaller_def awaitToken_recording)

lemmas classify_defs =
  isRateLimitedError_def isClientSideError_def extractStatusCodeProperties_def
  statusCodes_def coerceStatus_def

lemmas engine_defs =
  executeAndHandleErrors_def defaultCaller_def freshWorld_def scripted_def
  defaultRetryOptions_def defaultResponseIdentifier_def calculateRetryDelay_def
  errorHeaders_def calculateDefaultDelay_def

text \<open>
  Claim C3. Take any call for which the limiter keeps granting tokens. The call settles,
  and for every attempt \<open>a\<close> of its log that was rejected with \<open>err\<close> before the last
  permitted one (attempt number below \<open>maxRetries + 1\<close>): \<open>a\<close> is the last attempt of the
  call and the call raises \<open>err\<close> itself if and only if the classifier calls \<open>err\<close> a
  client-side error and not rate-limited; under any other verdict (rate-limited takes
  precedence) a further attempt follows, unless \<open>err\<close> is \<^verbatim>\<open>null\<close> or \<^verbatim>\<open>undefined\<close>. In
  particular a call whose first attempt is rejected with such a client-side error makes
  exactly one attempt and raises that error.
\<close>

theorem client_errors_terminal:
  assumes tokens: "\<forall>b. awaitToken (consumeAsync (tokenBucket C)) b \<noteq> None"
  shows "\<exists>out w' new. executeAndHandleErrors C E w = Some (out, w')
           \<and> attempts w' = attempts w @ new
           \<and> (\<forall>pre a post err. new = pre @ a # post \<and> rejectedEarly C a err \<longrightarrow>
                 ((post = [] \<and> out = Rejected err) \<longleftrightarrow> terminalVerdict C err)
                 \<and> (\<not> terminalVerdict C err \<and> \<not> nullish err \<longrightarrow> post \<noteq> []))
           \<and> (\<forall>err. 0 \<le> maxRetries (retryOptions C)
                 \<and> fn E (length (attempts w)) = Rejected err \<and> terminalVerdict C err \<longrightarrow>
                 out = Rejected err \<and> new = [(1, Rejected err)])"
proof -
  obtain out w' where r: "executeWithRetry C E 1 JUndefined JUndefined w = Some (out, w')"
    using exec_total[OF tokens, of E 1 JUndefined JUndefined w] by auto
  from exec_inv[OF this] obtain new where
    n: "attempts w' = attempts w @ new"
       "if maxRetries (retryOptions C) + 1 < 1 then new = [] else completedInv C new out"
    by (auto simp: engineInv_def)
  have a: "((post = [] \<and> out = Rejected err) \<longleftrightarrow> terminalVerdict C err)
       \<and> (\<not> terminalVerdict C err \<and> \<not> nullish err \<longrightarrow> post \<noteq> [])"
    if "new = pre @ a # post" "rejectedEarly C a err" for pre a post err
  proof -
    have "completedInv C (pre @ a # post) out"
      using n(2) that(1) by (auto split: if_splits)
    from completedInv_attempt[OF this that(2)] show ?thesis .
  qed
  have b: "out = Rejected err \<and> new = [(1, Rejected err)]"
    if "0 \<le> maxRetries (retryOptions C)" "fn E (length (attempts w)) = Rejected err"
       "terminalVerdict C err" for err
  proof -
    obtain b where "awaitToken (consumeAsync (tokenBucket C)) (bucket w) = Some b"
      using tokens by blast
    from terminal_first_attempt[OF this that] r n(1) show ?thesis
      by (auto simp: executeAndHandleErrors_def)
  qed
  show ?thesis using r n(1) a b unfolding executeAndHandleErrors_def by blast
qed

lemma run404:
  "executeAndHandleErrors defaultCaller
      (scripted [] (Rejected (JObj [(''status'', JNum (Num 404))]))) freshWorld =
     Some (Rejected (JObj [(''status'', JNum (Num 404))]),
       \<lparr>bucket = [], attempts = [(1, Rejected (JObj [(''status'', JNum (Num 404))]))],
        delays = []\<rparr>)"
  by (simp add: engine_defs classify_defs executeWithRetry.simps awaitToken_recording)

theorem client_errors_terminal_witness:
  "(\<forall>b. awaitToken (consumeAsync (tokenBucket defaultCaller)) b \<noteq> None)
   \<and> executeAndHandleErrors defaultCaller
        (scripted [] (Rejected (JObj [(''status'', JNum (Num 404))]))) freshWorld =
       Some (Rejected (JObj [(''status'', JNum (Num 404))]),
         \<lparr>bucket = [], attempts = [(1, Rejected (JObj [(''status'', JNum (Num 404))]))],
          delays = []\<rparr>)
   \<and> rejectedEarly defaultCaller (1, Rejected (JObj [(''status'', JNum (Num 404))]))
        (JObj [(''status'', JNum (Num 404))])
   \<and> terminalVerdict defaultCaller (JObj [(''status'', JNum (Num 404))])"
proof -
  let ?e = "JObj [(''status'', JNum (Num 404))]"
  let ?E = "scripted [] (Rejected ?e)"
  have re: "rejectedEarly defaultCaller (1, Rejected ?e) ?e"
    by (simp add: rejectedEarly_def defaultCaller_def defaultRetryOptions_def)
  from client_errors_terminal[OF defaultCaller_tokens, of ?E freshWorld]
  obtain out w' new where
    r: "executeAndHandleErrors defaultCaller ?E freshWorld = Some (out, w')"
       "attempts w' = attempts freshWorld @ new"
    and a: "\<forall>pre a post err. new = pre @ a # post \<and> rejectedEarly defaultCaller a err \<longrightarrow>
              ((post = [] \<and> out = Rejected err) \<longleftrightarrow> terminalVerdict defaultCaller err)
              \<and> (\<not> terminalVerdict defaultCaller err \<and> \<not> nullish err \<longrightarrow> post \<noteq> [])"
    by blast
  have "out = Rejected ?e" "new = [] @ (1, Rejected ?e) # []"
    using r run404 by (simp_all add: freshWorld_def)
  with a re have "terminalVerdict defaultCaller ?e" by blast
  then show ?thesis using run404 re defaultCaller_tokens by blast
qed






lemma always_rejected_four_attempts:
  assumes "maxRetries (retryOptions C) = 3"
    and "\<forall>b. awaitToken (consumeAsync (tokenBucket C)) b \<noteq> None"
    and "\<forall>k. \<not> terminalVerdict C (e k) \<and> \<not> nullish (e k) \<and> fn E k = Rejected (e k)"
  shows "\<exists>w'. executeAndHandleErrors C E w = Some (Rejected (e (length (attempts w) + 3)), w')
           \<and> map fst (attempts w') = map fst (attempts w) @ [1, 2, 3, 4]"
proof -
  have "[1..(4::int)] = [1, 2, 3, 4]" by (simp add: upto.simps)
  then show ?thesis
    using always_rejected_run[OF assms(2,3), of 1 JUndefined JUndefined w] assms(1)
    by (simp add: executeAndHandleErrors_def)
qed

text \<open>
  Claim C4 on the code. With the default options (\<open>maxRetries = 3\<close>), an operation that
  first resolves with a 429 result and from then on rejects with an unclassified error is
  invoked 7 times, with attempt numbers 1, 2, 3, 4, 2, 3, 4: the rejection of the inner
  call made by the first handler reaches the \<^verbatim>\<open>.catch\<close> of the outer one, which starts a
  second chain of retries. \<open>always_rejected_four_attempts\<close> above is the part of the claim
  that holds: an operation that always rejects is invoked 4 times.
\<close>

theorem nested_retries_exceed_cap:
  "executeAndHandleErrors defaultCaller
      (scripted [Fulfilled (JObj [(''status'', JNum (Num 429))])]
         (Rejected (JObj [(''message'', JStr ''socket hang up'')]))) freshWorld =
     Some (Rejected (JObj [(''message'', JStr ''socket hang up'')]),
       \<lparr>bucket = [],
        attempts = [(1, Fulfilled (JObj [(''status'', JNum (Num 429))])),
                    (2, Rejected (JObj [(''message'', JStr ''socket hang up'')])),
                    (3, Rejected (JObj [(''message'', JStr ''socket hang up'')])),
                    (4, Rejected (JObj [(''message'', JStr ''socket hang up'')])),
                    (2, Rejected (JObj [(''message'', JStr ''socket hang up'')])),
                    (3, Rejected (JObj [(''message'', JStr ''socket hang up'')])),
                    (4, Rejected (JObj [(''message'', JStr ''socket hang up'')]))],
        delays = [1000, 2000, 4000, 1000, 2000, 4000]\<rparr>)
   \<and> maxRetries (retryOptions defaultCaller) + 1 = 4"
  by (simp add: engine_defs classify_defs executeWithRetry.simps awaitToken_recording)

lemma extract_fields:
  "set (extractStatusCodeProperties v) =
     {c. c \<noteq> 0 \<and> (\<exists>x \<in> {getProp v ''status'', getProp (getProp v ''response'') ''status'',
                           getProp v ''statuscode'',
                           getProp (getProp v ''response'') ''statuscode'',
                           getProp v ''code''}.
            x = JNum (Num c) \<or> (\<exists>s. x = JStr s \<and> parseInt s = Num c))}"
  using extract_set[of v] by (simp add: statusCodes_def)

lemma extract_empty_iff:
  "extractStatusCodeProperties v = [] \<longleftrightarrow>
     (\<forall>x \<in> {getProp v ''status'', getProp (getProp v ''response'') ''status'',
              getProp v ''statuscode'', getProp (getProp v ''response'') ''statuscode'',
              getProp v ''code''}.
        \<forall>c. x = JNum (Num c) \<or> (\<exists>s. x = JStr s \<and> parseInt s = Num c) \<longrightarrow> c = 0)"
proof -
  have "extractStatusCodeProperties v = [] \<longleftrightarrow> set (extractStatusCodeProperties v) = {}"
    by simp
  also have "\<dots> \<longleftrightarrow> (\<forall>x \<in> {getProp v ''status'', getProp (getProp v ''response'') ''status'',
              getProp v ''statuscode'', getProp (getProp v ''response'') ''statuscode'',
              getProp v ''code''}.
        \<forall>c. x = JNum (Num c) \<or> (\<exists>s. x = JStr s \<and> parseInt s = Num c) \<longrightarrow> c = 0)"
    unfolding extract_fields by blast
  finally show ?thesis .
qed

lemma statusCode_ignored:
  "extractStatusCodeProperties (JObj ((''statusCode'', x) # ps)) =
     extractStatusCodeProperties (JObj ps)"
  by (simp add: extractStatusCodeProperties_def statusCodes_def)

lemma no_candidates_verdicts:
  "extractStatusCodeProperties v = [] \<Longrightarrow> \<not> isClientSideError v \<and> \<not> isRateLimitedError v"
  by (simp add: isClientSideError_def isRateLimitedError_def)

lemma unclassified_retried:
  assumes tokens: "\<forall>b. awaitToken (consumeAsync (tokenBucket C)) b \<noteq> None"
    and d: "resultIdentifier C = defaultResponseIdentifier"
  shows "\<exists>out w' new. executeAndHandleErrors C E w = Some (out, w')
           \<and> attempts w' = attempts w @ new
           \<and> (\<forall>pre a post u. new = pre @ a # post \<and> rejectedEarly C a u \<and> \<not> nullish u
                 \<and> extractStatusCodeProperties u = [] \<longrightarrow> post \<noteq> [])"
proof -
  obtain out w' where r: "executeWithRetry C E 1 JUndefined JUndefined w = Some (out, w')"
    using exec_total[OF tokens, of E 1 JUndefined JUndefined w] by auto
  from exec_inv[OF this] obtain new where
    n: "attempts w' = attempts w @ new"
       "if maxRetries (retryOptions C) + 1 < 1 then new = [] else completedInv C new out"
    by (auto simp: engineInv_def)
  have "post \<noteq> []"
    if "new = pre @ a # post" "rejectedEarly C a u" "\<not> nullish u"
       "extractStatusCodeProperties u = []" for pre a post u
  proof -
    have "completedInv C (pre @ a # post) out"
      using n(2) that(1) by (auto split: if_splits)
    moreover have "\<not> terminalVerdict C u"
      using no_candidates_verdicts[OF that(4)] d
      by (simp add: terminalVerdict_def defaultResponseIdentifier_def)
    ultimately show ?thesis using completedInv_attempt[OF _ that(2)] that(3) by blast
  qed
  then show ?thesis using r n(1) unfolding executeAndHandleErrors_def by blast
qed

text \<open>
  Claim C10. The candidates of a value are read at exactly the five fields \<^verbatim>\<open>status\<close>,
  \<^verbatim>\<open>response.status\<close>, \<^verbatim>\<open>statuscode\<close>, \<^verbatim>\<open>response.statuscode\<close> and \<^verbatim>\<open>code\<close>: they are
  the numbers other than 0 held there and the integers other than 0 that \<^verbatim>\<open>parseInt\<close>
  reads from the strings held there, so a value has no candidate exactly when none of the
  five fields holds such a number or string. A field spelled \<^verbatim>\<open>statusCode\<close> is not read:
  putting it in front of an object changes no candidate, and \<^verbatim>\<open>{statusCode: x}\<close>,
  \<^verbatim>\<open>{statusCode: x, response: {statusCode: y}}\<close> and
  \<^verbatim>\<open>{statusCode: x, code: "ThrottlingException"}\<close> have none. A value with no candidate is
  neither a client-side error nor rate-limited, and under the default classifier and a
  limiter that keeps granting tokens every attempt rejected with such a value (not
  \<^verbatim>\<open>null\<close> or \<^verbatim>\<open>undefined\<close>) before the last permitted one is followed by another attempt.
\<close>

theorem camelCase_statusCode_unseen:
  "set (extractStatusCodeProperties v) =
     {c. c \<noteq> 0 \<and> (\<exists>x \<in> {getProp v ''status'', getProp (getProp v ''response'') ''status'',
                           getProp v ''statuscode'',
                           getProp (getProp v ''response'') ''statuscode'',
                           getProp v ''code''}.
            x = JNum (Num c) \<or> (\<exists>s. x = JStr s \<and> parseInt s = Num c))}
   \<and> (extractStatusCodeProperties v = [] \<longleftrightarrow>
        (\<forall>x \<in> {getProp v ''status'', getProp (getProp v ''response'') ''status'',
                 getProp v ''statuscode'', getProp (getProp v ''response'') ''statuscode'',
                 getProp v ''code''}.
           \<forall>c. x = JNum (Num c) \<or> (\<exists>s. x = JStr s \<and> parseInt s = Num c) \<longrightarrow> c = 0))
   \<and> extractStatusCodeProperties (JObj ((''statusCode'', x) # ps)) =
        extractStatusCodeProperties (JObj ps)
   \<and> extractStatusCodeProperties (JObj [(''statusCode'', x)]) = []
   \<and> extractStatusCodeProperties
        (JObj [(''statusCode'', x), (''response'', JObj [(''statusCode'', y)])]) = []
   \<and> extractStatusCodeProperties
        (JObj [(''statusCode'', x), (''code'', JStr ''ThrottlingException'')]) = []
   \<and> (extractStatusCodeProperties v = [] \<longrightarrow>
        \<not> isClientSideError v \<and> \<not> isRateLimitedError v
        \<and> identifyError defaultResponseIdentifier v =
            \<lparr>isRateLimited = False, isClientSideError' = False\<rparr>)
   \<and> ((\<forall>b. awaitToken (consumeAsync (tokenBucket C)) b \<noteq> None)
        \<and> resultIdentifier C = defaultResponseIdentifier \<longrightarrow>
        (\<exists>out w' new. executeAndHandleErrors C E w = Some (out, w')
           \<and> attempts w' = attempts w @ new
           \<and> (\<forall>pre a post u. new = pre @ a # post \<and> rejectedEarly C a u \<and> \<not> nullish u
                 \<and> extractStatusCodeProperties u = [] \<longrightarrow> post \<noteq> [])))"
proof -
  have a: "extractStatusCodeProperties (JObj [(''statusCode'', x)]) = []"
    by (simp add: extractStatusCodeProperties_def statusCodes_def coerceStatus_def)
  have b: "extractStatusCodeProperties
        (JObj [(''statusCode'', x), (''response'', JObj [(''statusCode'', y)])]) = []"
    by (simp add: extractStatusCodeProperties_def statusCodes_def coerceStatus_def)
  have c: "extractStatusCodeProperties
        (JObj [(''statusCode'', x), (''code'', JStr ''ThrottlingException'')]) = []"
    by (simp add: extractStatusCodeProperties_def statusCodes_def coerceStatus_def parse_defs)
  have d: "extractStatusCodeProperties v = [] \<longrightarrow>
        \<not> isClientSideError v \<and> \<not> isRateLimitedError v
        \<and> identifyError defaultResponseIdentifier v =
            \<lparr>isRateLimited = False, isClientSideError' = False\<rparr>"
    using no_candidates_verdicts[of v] by (simp add: defaultResponseIdentifier_def)
  have e: "(\<forall>b. awaitToken (consumeAsync (tokenBucket C)) b \<noteq> None)
        \<and> resultIdentifier C = defaultResponseIdentifier \<longrightarrow>
        (\<exists>out w' new. executeAndHandleErrors C E w = Some (out, w')
           \<and> attempts w' = attempts w @ new
           \<and> (\<forall>pre a post u. new = pre @ a # post \<and> rejectedEarly C a u \<and> \<not> nullish u
                 \<and> extractStatusCodeProperties u = [] \<longrightarrow> post \<noteq> []))"
    using unclassified_retried[of C E w] by blast
  show ?thesis
    using extract_fields[of v] extract_empty_iff[of v] statusCode_ignored[of x ps] a b c d e
    by (intro conjI)
qed

theorem camelCase_statusCode_unseen_witness:
  "extractStatusCodeProperties
      (JObj [(''statusCode'', JNum (Num 429)), (''code'', JStr ''ThrottlingException'')]) = []
   \<and> \<not> isClientSideError
      (JObj [(''statusCode'', JNum (Num 429)), (''code'', JStr ''ThrottlingException'')])
   \<and> \<not> isRateLimitedError
      (JObj [(''statusCode'', JNum (Num 429)), (''code'', JStr ''ThrottlingException'')])
   \<and> (\<exists>w'. executeAndHandleErrors defaultCaller
          (scripted [] (Rejected
             (JObj [(''statusCode'', JNum (Num 429)), (''code'', JStr ''ThrottlingException'')])))
          freshWorld =
        Some (Rejected
             (JObj [(''statusCode'', JNum (Num 429)), (''code'', JStr ''ThrottlingException'')]),
          w')
      \<and> map fst (attempts w') = [1, 2, 3, 4])
   \<and> set (extractStatusCodeProperties (JObj [(''statuscode'', JStr ''404'')])) = {404}"
proof -
  let ?v = "JObj [(''statusCode'', JNum (Num 429)), (''code'', JStr ''ThrottlingException'')]"
  let ?E = "scripted [] (Rejected ?v)"
  let ?u = "JObj [(''statuscode'', JStr ''404'')]"
  note t = camelCase_statusCode_unseen[of ?v "JNum (Num 429)" "[]" JUndefined defaultCaller ?E
      freshWorld]
  have e: "extractStatusCodeProperties ?v = []" using t by blast
  with t have c: "\<not> isClientSideError ?v" "\<not> isRateLimitedError ?v" by blast+
  have nt: "\<forall>k. \<not> terminalVerdict defaultCaller ((\<lambda>k. ?v) k) \<and> \<not> nullish ((\<lambda>k. ?v) k)
            \<and> fn ?E k = Rejected ((\<lambda>k. ?v) k)"
    using c by (simp add: terminalVerdict_def defaultCaller_def defaultResponseIdentifier_def
        scripted_def)
  have m: "maxRetries (retryOptions defaultCaller) = 3"
    by (simp add: defaultCaller_def defaultRetryOptions_def)
  from always_rejected_four_attempts[OF m defaultCaller_tokens nt, of freshWorld]
  have run: "\<exists>w'. executeAndHandleErrors defaultCaller ?E freshWorld = Some (Rejected ?v, w')
      \<and> map fst (attempts w') = [1, 2, 3, 4]"
    by (simp add: freshWorld_def)
  have p: "parseInt ''404'' = Num 404" by (simp add: parse_defs)
  have "set (extractStatusCodeProperties ?u) = {c. c = 404 \<and> c \<noteq> 0}"
    using camelCase_statusCode_unseen[of ?u JUndefined "[]" JUndefined defaultCaller ?E
        freshWorld, THEN conjunct1] p
    by simp
  moreover have "{c::rat. c = 404 \<and> c \<noteq> 0} = {404}" by auto
  ultimately have s: "set (extractStatusCodeProperties ?u) = {404}"
    by (rule trans)
  show ?thesis using e c run s by blast
qed

section \<open>Properties of the admission queue\<close>

lemma ptq_step:
  "runningTasks s < conc \<Longrightarrow> queue s \<noteq> [] \<Longrightarrow>
     processTaskQueue conc s =
       processTaskQueue conc
         (s\<lparr>runningTasks := runningTasks s + 1, queue := tl (queue s),
            microtasks := microtasks s @ [hd (queue s)]\<rparr>)"
  by (subst processTaskQueue.simps) simp

lemma ptq_stop:
  assumes "\<not> (runningTasks s < conc \<and> 0 < length (queue s))"
  shows "processTaskQueue conc s = s"
  by (subst processTaskQueue.simps, simp only: assms if_False)

lemma ptq_order:
  "microtasks (processTaskQueue conc s) @ queue (processTaskQueue conc s) = microtasks s @ queue s"
proof (induction conc s rule: processTaskQueue.induct)
  case (1 conc s)
  show ?case
  proof (cases "runningTasks s < conc \<and> 0 < length (queue s)")
    case True
    then have q: "queue s \<noteq> []" "runningTasks s < conc" by auto
    then have h: "hd (queue s) # tl (queue s) = queue s" by simp
    show ?thesis
      using 1[OF True] q h by (simp add: ptq_step)
  next
    case False
    then show ?thesis by (simp add: ptq_stop)
  qed
qed

lemma ptq_frame:
  "submitted (processTaskQueue conc s) = submitted s
   \<and> started (processTaskQueue conc s) = started s
   \<and> polling (processTaskQueue conc s) = polling s
   \<and> executing (processTaskQueue conc s) = executing s
   \<and> finished (processTaskQueue conc s) = finished s"
proof (induction conc s rule: processTaskQueue.induct)
  case (1 conc s)
  show ?case
  proof (cases "runningTasks s < conc \<and> 0 < length (queue s)")
    case True
    then have q: "queue s \<noteq> []" "runningTasks s < conc" by auto
    then have h: "hd (queue s) # tl (queue s) = queue s" by simp
    show ?thesis
      using 1[OF True] q h by (simp add: ptq_step)
  next
    case False
    then show ?thesis by (simp add: ptq_stop)
  qed
qed

lemma ptq_counter:
  "runningTasks (processTaskQueue conc s) - int (length (microtasks (processTaskQueue conc s)))
     = runningTasks s - int (length (microtasks s))"
proof (induction conc s rule: processTaskQueue.induct)
  case (1 conc s)
  show ?case
  proof (cases "runningTasks s < conc \<and> 0 < length (queue s)")
    case True
    then have q: "queue s \<noteq> []" "runningTasks s < conc" by auto
    then have h: "hd (queue s) # tl (queue s) = queue s" by simp
    show ?thesis
      using 1[OF True] q h by (simp add: ptq_step)
  next
    case False
    then show ?thesis by (simp add: ptq_stop)
  qed
qed

lemma ptq_done:
  "queue (processTaskQueue conc s) = [] \<or> conc \<le> runningTasks (processTaskQueue conc s)"
proof (induction conc s rule: processTaskQueue.induct)
  case (1 conc s)
  show ?case
  proof (cases "runningTasks s < conc \<and> 0 < length (queue s)")
    case True
    then have q: "queue s \<noteq> []" "runningTasks s < conc" by auto
    then have h: "hd (queue s) # tl (queue s) = queue s" by simp
    show ?thesis
      using 1[OF True] q h by (simp add: ptq_step)
  next
    case False
    then show ?thesis by (auto simp: ptq_stop)
  qed
qed

lemma ptq_grows:
  "\<exists>more. microtasks (processTaskQueue conc s) = microtasks s @ more"
proof (induction conc s rule: processTaskQueue.induct)
  case (1 conc s)
  show ?case
  proof (cases "runningTasks s < conc \<and> 0 < length (queue s)")
    case True
    then have q: "queue s \<noteq> []" "runningTasks s < conc" by auto
    then have h: "hd (queue s) # tl (queue s) = queue s" by simp
    show ?thesis
      using 1[OF True] q h by (auto simp: ptq_step)
  next
    case False
    then show ?thesis by (simp add: ptq_stop)
  qed
qed

lemma ptq_bound':
  "runningTasks s \<le> max conc 0 \<Longrightarrow> runningTasks (processTaskQueue conc s) \<le> max conc 0"
proof (induction conc s rule: processTaskQueue.induct)
  case (1 conc s)
  show ?case
  proof (cases "runningTasks s < conc \<and> 0 < length (queue s)")
    case True
    then have q: "queue s \<noteq> []" "runningTasks s < conc" by auto
    then have h: "hd (queue s) # tl (queue s) = queue s" by simp
    show ?thesis
      using 1(1)[OF True] 1(2) q h by (simp add: ptq_step)
  next
    case False
    then show ?thesis using 1(2) by (simp add: ptq_stop)
  qed
qed

lemma ptq_oldest_first:
  assumes "runningTasks s < conc" "queue s = c # rest"
  shows "\<exists>more. microtasks (processTaskQueue conc s) = microtasks s @ c # more"
proof -
  let ?s' = "s\<lparr>runningTasks := runningTasks s + 1, queue := tl (queue s),
               microtasks := microtasks s @ [hd (queue s)]\<rparr>"
  have "processTaskQueue conc s = processTaskQueue conc ?s'"
    using assms by (simp add: ptq_step)
  moreover obtain more where "microtasks (processTaskQueue conc ?s') = microtasks ?s' @ more"
    using ptq_grows by blast
  ultimately show ?thesis using assms by simp
qed

lemma inv_initial: "admissionInv conc initial"
  by (simp add: admissionInv_def initial_def)

lemma inv_step:
  assumes "admissionInv conc s" "step conc e s = Some s'"
  shows "admissionInv conc s'"
proof (cases e)
  case Call
  let ?c = "length (submitted s)"
  let ?s1 = "s\<lparr>queue := queue s @ [?c], submitted := submitted s @ [?c]\<rparr>"
  have s': "s' = processTaskQueue conc ?s1" using assms(2) Call by (simp add: Let_def)
  have "started s' @ microtasks s' @ queue s' = submitted s'"
    using ptq_order[of conc ?s1] ptq_frame[of conc ?s1] assms(1)
    by (simp add: s' admissionInv_def)
  moreover have "submitted s' = [0..<length (submitted s')]"
    using ptq_frame[of conc ?s1] assms(1)
    by (simp add: s' admissionInv_def)
  moreover have "runningTasks s' = int (length (microtasks s'))"
    using ptq_counter[of conc ?s1] assms(1) by (simp add: s' admissionInv_def)
  moreover have "runningTasks s' \<le> max conc 0"
    using ptq_bound'[of ?s1 conc] assms(1) by (simp add: s' admissionInv_def)
  moreover have "queue s' = [] \<or> conc \<le> runningTasks s'"
    using ptq_done[of conc ?s1] by (simp add: s')
  ultimately show ?thesis by (simp add: admissionInv_def)
next
  case Continue
  then obtain c rest where m: "microtasks s = c # rest"
    using assms(2) by (cases "microtasks s") auto
  let ?s1 = "s\<lparr>microtasks := rest, started := started s @ [c], polling := polling s @ [c],
               runningTasks := runningTasks s - 1\<rparr>"
  have s': "s' = processTaskQueue conc ?s1" using assms(2) Continue m by simp
  have "started s' @ microtasks s' @ queue s' = submitted s'"
    using ptq_order[of conc ?s1] ptq_frame[of conc ?s1] assms(1) m
    by (simp add: s' admissionInv_def)
  moreover have "submitted s' = [0..<length (submitted s')]"
    using ptq_frame[of conc ?s1] assms(1) by (simp add: s' admissionInv_def)
  moreover have "runningTasks s' = int (length (microtasks s'))"
    using ptq_counter[of conc ?s1] assms(1) m by (simp add: s' admissionInv_def)
  moreover have "runningTasks s' \<le> max conc 0"
    using ptq_bound'[of ?s1 conc] assms(1) by (simp add: s' admissionInv_def)
  moreover have "queue s' = [] \<or> conc \<le> runningTasks s'"
    using ptq_done[of conc ?s1] by (simp add: s')
  ultimately show ?thesis by (simp add: admissionInv_def)
next
  case (Invoke c)
  then show ?thesis using assms by (auto simp: admissionInv_def split: if_splits)
next
  case (Settle c again)
  then show ?thesis using assms by (auto simp: admissionInv_def split: if_splits)
next
  case (Exhaust c)
  then show ?thesis using assms by (auto simp: admissionInv_def split: if_splits)
qed

lemma inv_run:
  "admissionInv conc s \<Longrightarrow> run conc es s = Some s' \<Longrightarrow> admissionInv conc s'"
proof (induction es arbitrary: s)
  case Nil
  then show ?case by simp
next
  case (Cons e es)
  then obtain s1 where "step conc e s = Some s1" "run conc es s1 = Some s'"
    by (auto split: option.splits)
  then show ?case using Cons.IH inv_step[OF Cons.prems(1)] by blast
qed

lemma running_count_bounded:
  "run conc es initial = Some s \<Longrightarrow>
     runningTasks s \<le> max conc 0 \<and> runningTasks s = int (length (microtasks s))"
  using inv_run[OF inv_initial, of conc es s] by (simp add: admissionInv_def)

text \<open>
  Claim C1 on the code. With a limit of 1 and three calls submitted together, all three
  operations are pending at once and \<open>runningTasks\<close> is back to 0: each call gives its
  slot back in the block that starts its \<^verbatim>\<open>executeWithRetry\<close>, before its operation is
  invoked. \<open>running_count_bounded\<close> above is the part of the claim that holds: the
  counter itself never exceeds the limit.
\<close>

theorem slot_released_before_operation:
  "run 1 [Call, Call, Call, Continue, Continue, Continue, Invoke 0, Invoke 1, Invoke 2] initial =
     Some \<lparr>runningTasks = 0, queue = [], microtasks = [], submitted = [0, 1, 2],
           started = [0, 1, 2], polling = [], executing = [0, 1, 2], finished = []\<rparr>
   \<and> run 1 [Call, Call, Continue] initial =
     Some \<lparr>runningTasks = 1, queue = [], microtasks = [1], submitted = [0, 1],
           started = [0], polling = [0], executing = [], finished = []\<rparr>"
  by (simp add: initial_def processTaskQueue.simps)

lemma prefix_of_upt:
  assumes "xs @ ys = [0..<n]"
  shows "xs = [0..<length xs]"
proof -
  have "length xs \<le> n" using arg_cong[OF assms, of length] by simp
  moreover have "xs = take (length xs) [0..<n]" using assms by (metis append_eq_conv_conj)
  ultimately show ?thesis by (simp add: min_def)
qed

text \<open>
  Claim C9. In every reachable state the calls started, then the calls unblocked, then
  the calls still queued are the submissions in their order of arrival, so a call never
  starts or is unblocked before one submitted earlier; a call is left in the queue only
  while \<open>runningTasks\<close> has reached the limit; and \<^verbatim>\<open>processTaskQueue\<close>, run with a free
  slot and a non-empty queue, unblocks the oldest queued call first and keeps the order
  of all the others.
\<close>

theorem admission_fifo:
  "(run conc es initial = Some s \<longrightarrow>
      started s @ microtasks s @ queue s = submitted s
      \<and> submitted s = [0..<length (submitted s)]
      \<and> (\<forall>c \<in> set (started s). \<forall>c' < c. c' \<in> set (started s))
      \<and> (\<forall>c \<in> set (started s @ microtasks s). \<forall>c' < c. c' \<in> set (started s @ microtasks s))
      \<and> (queue s = [] \<or> conc \<le> runningTasks s))
   \<and> (runningTasks s0 < conc \<and> queue s0 = c # rest \<longrightarrow>
        (\<exists>more. microtasks (processTaskQueue conc s0) = microtasks s0 @ c # more))
   \<and> microtasks (processTaskQueue conc s0) @ queue (processTaskQueue conc s0)
        = microtasks s0 @ queue s0"
proof -
  have reach: "started s @ microtasks s @ queue s = submitted s
      \<and> submitted s = [0..<length (submitted s)]
      \<and> (\<forall>c \<in> set (started s). \<forall>c' < c. c' \<in> set (started s))
      \<and> (\<forall>c \<in> set (started s @ microtasks s). \<forall>c' < c. c' \<in> set (started s @ microtasks s))
      \<and> (queue s = [] \<or> conc \<le> runningTasks s)"
    if "run conc es initial = Some s"
  proof -
    have i: "admissionInv conc s" using inv_run[OF inv_initial that] .
    then have o: "started s @ microtasks s @ queue s = [0..<length (submitted s)]"
      by (simp add: admissionInv_def)
    have "started s = [0..<length (started s)]" using prefix_of_upt[OF o] .
    then have a: "set (started s) = {0..<length (started s)}"
      by (metis atLeastLessThan_upt)
    have "(started s @ microtasks s) @ queue s = [0..<length (submitted s)]" using o by simp
    from prefix_of_upt[OF this]
    have b: "set (started s @ microtasks s) = {0..<length (started s @ microtasks s)}"
      by (metis atLeastLessThan_upt)
    have "\<forall>c \<in> set (started s). \<forall>c' < c. c' \<in> set (started s)"
      unfolding a by auto
    moreover have "\<forall>c \<in> set (started s @ microtasks s). \<forall>c' < c. c' \<in> set (started s @ microtasks s)"
      unfolding b by auto
    ultimately show ?thesis using i by (auto simp: admissionInv_def)
  qed
  have "runningTasks s0 < conc \<and> queue s0 = c # rest \<longrightarrow>
        (\<exists>more. microtasks (processTaskQueue conc s0) = microtasks s0 @ c # more)"
    using ptq_oldest_first[of s0 conc c rest] by blast
  then show ?thesis using reach ptq_order[of conc s0] by blast
qed

theorem admission_fifo_witness:
  "run 2 [Call, Call, Call, Call, Continue] initial =
     Some \<lparr>runningTasks = 2, queue = [3], microtasks = [1, 2], submitted = [0, 1, 2, 3],
           started = [0], polling = [0], executing = [], finished = []\<rparr>
   \<and> (\<exists>more. microtasks (processTaskQueue 2
          \<lparr>runningTasks = 1, queue = [2, 3], microtasks = [1], submitted = [0, 1, 2, 3],
           started = [0], polling = [0], executing = [], finished = []\<rparr>) = [1, 2] @ more)"
proof -
  let ?after = "\<lparr>runningTasks = 2, queue = [3], microtasks = [1, 2], submitted = [0, 1, 2, 3],
           started = [0], polling = [0], executing = [], finished = []\<rparr>"
  let ?before = "\<lparr>runningTasks = 1, queue = [2, 3], microtasks = [1], submitted = [0, 1, 2, 3],
           started = [0], polling = [0], executing = [], finished = []\<rparr>"
  have r: "run 2 [Call, Call, Call, Call, Continue] initial = Some ?after"
    by (simp add: initial_def processTaskQueue.simps eval_nat_numeral)
  have h: "runningTasks ?before < 2 \<and> queue ?before = 2 # [3]" by simp
  from admission_fifo[of 2 "[Call, Call, Call, Call, Continue]" ?after ?before 2 "[3]"] h
  have "\<exists>more. microtasks (processTaskQueue 2 ?before) = microtasks ?before @ 2 # more"
    by blast
  then have "\<exists>more. microtasks (processTaskQueue 2 ?before) = [1, 2] @ more" by simp
  with r show ?thesis by blast
qed

end
